theory Spec2Isabelle
  imports Main
begin

section \<open>Strings\<close>

text \<open>
  A JavaScript string is modelled as a \<^typ>\<open>string\<close>: a list of code units below 256.
  Within that range the white space of \<^verbatim>\<open>String.prototype.trim\<close> and of the regular
  expression class \<^verbatim>\<open>\s\<close> is TAB, LF, VT, FF, CR, SPACE and NBSP; the line terminators
  (the characters that \<^verbatim>\<open>.\<close> does not match) are LF and CR.
\<close>

definition isWhiteSpace :: "char \<Rightarrow> bool" where
  "isWhiteSpace c =
     (c \<in> set [CHR 0x09, CHR 0x0A, CHR 0x0B, CHR 0x0C, CHR 0x0D, CHR 0x20, CHR 0xA0])"

definition isLineTerminator :: "char \<Rightarrow> bool" where
  "isLineTerminator c = (c = CHR 0x0A \<or> c = CHR 0x0D)"

definition trim :: "string \<Rightarrow> string" where
  "trim s = rev (dropWhile isWhiteSpace (rev (dropWhile isWhiteSpace s)))"

definition lowerChar :: "char \<Rightarrow> char" where
  "lowerChar c =
     (let n = (of_char c :: nat)
      in if (65 \<le> n \<and> n \<le> 90) \<or> (192 \<le> n \<and> n \<le> 222 \<and> n \<noteq> 215)
         then char_of (n + 32) else c)"

definition toLowerCase :: "string \<Rightarrow> string" where
  "toLowerCase s = map lowerChar s"

definition startsWith :: "string \<Rightarrow> string \<Rightarrow> bool" where
  "startsWith s p = (take (length p) s = p)"

fun includesStr :: "string \<Rightarrow> string \<Rightarrow> bool" where
  "includesStr [] p = (p = [])"
| "includesStr (c # cs) p = (startsWith (c # cs) p \<or> includesStr cs p)"

text \<open>
  \<^verbatim>\<open>t.match(/^KW\s*(.*)$/i)\<close> for an ASCII keyword \<^verbatim>\<open>KW\<close>: the keyword is compared
  without regard to case, \<^verbatim>\<open>\s*\<close> takes the white space that follows, and the group
  must reach the end of the input without crossing a line terminator. The result is the
  captured group, or \<open>None\<close> when there is no match.
\<close>

definition matchKeyword :: "string \<Rightarrow> string \<Rightarrow> string option" where
  "matchKeyword kw t =
     (if toLowerCase (take (length kw) t) = toLowerCase kw
      then (let rest = dropWhile isWhiteSpace (drop (length kw) t)
            in if list_ex isLineTerminator rest then None else Some rest)
      else None)"

text \<open>\<^verbatim>\<open>t.replace(/^KW\s*/i, '')\<close>.\<close>

definition stripKeyword :: "string \<Rightarrow> string \<Rightarrow> string" where
  "stripKeyword kw t =
     (if toLowerCase (take (length kw) t) = toLowerCase kw
      then dropWhile isWhiteSpace (drop (length kw) t)
      else t)"

text \<open>\<^verbatim>\<open>a || b\<close> on strings: the empty string is falsy.\<close>

definition orElse :: "string \<Rightarrow> string \<Rightarrow> string" where
  "orElse a b = (if a = [] then b else a)"

section \<open>Log classifier and visibility filter\<close>

definition IMPORTANT_LINE_SNIPPETS :: "string list" where
  "IMPORTANT_LINE_SNIPPETS =
     [''success! video saved'',
      ''renaming downloaded file'',
      ''treating video as main video file'',
      ''storing video in subfolder'',
      ''created movie folder'',
      ''fetching radarr details'',
      ''resolved youtube format'']"

definition NOISY_WARNING_SNIPPETS :: "string list" where
  "NOISY_WARNING_SNIPPETS =
     [''[youtube]'',
      ''sabr streaming'',
      ''web client https formats have been skipped'',
      ''web_safari client https formats have been skipped'',
      ''tv client https formats have been skipped'']"

text \<open>The line as the filter looks at it: \<^verbatim>\<open>original.trim().toLowerCase()\<close>.\<close>

definition lowered :: "string \<Rightarrow> string" where
  "lowered line = toLowerCase (trim line)"

definition shouldDisplayLogLine :: "string \<Rightarrow> bool" where
  "shouldDisplayLogLine line =
     (let trimmed = trim line in
      if trimmed = [] then False
      else let lowered = toLowerCase trimmed in
        if startsWith lowered ''debug:'' then False
        else if startsWith lowered ''warning:''
          then \<not> list_ex (\<lambda>snippet. includesStr lowered snippet) NOISY_WARNING_SNIPPETS
        else if startsWith lowered ''error:'' then True
        else if startsWith lowered ''[download]'' \<or> startsWith lowered ''[ffmpeg]''
                \<or> startsWith lowered ''[merger]'' then True
        else list_ex (\<lambda>snippet. includesStr lowered snippet) IMPORTANT_LINE_SNIPPETS)"

record log_line =
  l_text :: string
  l_type :: string

text \<open>
  \<^verbatim>\<open>interpretLogLine(rawText, forcedType = null)\<close>. The forced type is \<open>None\<close> for
  \<^verbatim>\<open>null\<close>; the empty string is falsy as well.
\<close>

definition interpretLogLine :: "string \<Rightarrow> string option \<Rightarrow> log_line" where
  "interpretLogLine rawText forcedType =
     (let original = rawText;
          trimmed = trim original;
          forced = (case forcedType of None \<Rightarrow> [] | Some f \<Rightarrow> f)
      in
      if forced = [] then
        (case matchKeyword ''ERROR:'' trimmed of
           Some g \<Rightarrow> \<lparr>l_text = orElse g ''Error'', l_type = ''error''\<rparr>
         | None \<Rightarrow>
        (case matchKeyword ''WARNING:'' trimmed of
           Some g \<Rightarrow> \<lparr>l_text = orElse g ''Warning'', l_type = ''warning''\<rparr>
         | None \<Rightarrow>
        (case matchKeyword ''DEBUG:'' trimmed of
           Some g \<Rightarrow> \<lparr>l_text = orElse g ''Debug'', l_type = ''debug''\<rparr>
         | None \<Rightarrow>
        if startsWith trimmed ''[download]'' then \<lparr>l_text = trimmed, l_type = ''progress''\<rparr>
        else if startsWith trimmed ''[ffmpeg]'' then \<lparr>l_text = trimmed, l_type = ''ffmpeg''\<rparr>
        else \<lparr>l_text = original, l_type = ''info''\<rparr>)))
      else if forced = ''muted'' then \<lparr>l_text = original, l_type = ''muted''\<rparr>
      else if forced = ''error''
        then \<lparr>l_text = orElse (stripKeyword ''ERROR:'' trimmed) original, l_type = ''error''\<rparr>
      else if forced = ''warning''
        then \<lparr>l_text = orElse (stripKeyword ''WARNING:'' trimmed) original, l_type = ''warning''\<rparr>
      else \<lparr>l_text = original, l_type = forced\<rparr>)"


section \<open>Job model\<close>

text \<open>
  A timestamp is a valid \<^verbatim>\<open>Date\<close> object, modelled by the value of \<^verbatim>\<open>getTime()\<close>
  (every \<^verbatim>\<open>Date\<close> that reaches the store went through \<^verbatim>\<open>parseDate\<close> or is
  \<^verbatim>\<open>new Date()\<close>). An absent field of an object is \<open>None\<close>; an absent string that
  the code only reads through \<^verbatim>\<open>||\<close> or a truthiness test is the empty string.
  The clock is a parameter \<open>now\<close> of every function that calls \<^verbatim>\<open>new Date()\<close>.
\<close>

datatype js_date = Missing | Invalid | Valid int

record job =
  j_id :: string
  j_status :: string
  j_label :: string
  j_subtitle :: string
  j_message :: string
  j_progress :: "int option"
  j_metadata :: "string list option"
  j_started_at :: js_date
  j_created_at :: js_date
  j_updated_at :: js_date
  j_completed_at :: js_date
  j_logs :: "string list option"

text \<open>The argument of \<^verbatim>\<open>upsertDownload\<close>: a partial record.\<close>

record update =
  u_id :: string
  u_label :: "string option"
  u_subtitle :: "string option"
  u_status :: "string option"
  u_progress :: "int option"
  u_metadata :: "string list option"
  u_message :: "string option"
  u_startedAt :: "int option"
  u_updatedAt :: "int option"

text \<open>A record of \<^verbatim>\<open>state.downloads\<close>.\<close>

record entry =
  e_id :: string
  e_label :: "string option"
  e_subtitle :: string
  e_status :: "string option"
  e_progress :: int
  e_metadata :: "string list"
  e_message :: string
  e_startedAt :: int
  e_updatedAt :: int

definition STATUS_LABELS :: "string list" where
  "STATUS_LABELS = [''queued'', ''processing'', ''complete'', ''failed'', ''cancelled'']"

text \<open>
  \<^verbatim>\<open>STATUS_LABELS[status]\<close> is a property read on an object literal, so the names
  inherited from \<^verbatim>\<open>Object.prototype\<close> are found (and are truthy) as well.
\<close>

definition objectPrototypeKeys :: "string list" where
  "objectPrototypeKeys =
     [''constructor'', ''toString'', ''toLocaleString'', ''valueOf'', ''hasOwnProperty'',
      ''isPrototypeOf'', ''propertyIsEnumerable'', ''__proto__'', ''__defineGetter__'',
      ''__defineSetter__'', ''__lookupGetter__'', ''__lookupSetter__'']"

definition hasStatusLabel :: "string \<Rightarrow> bool" where
  "hasStatusLabel status = (status \<in> set STATUS_LABELS \<or> status \<in> set objectPrototypeKeys)"

definition CANCELLABLE_STATUSES :: "string list" where
  "CANCELLABLE_STATUSES = [''queued'', ''processing'']"

text \<open>\<^verbatim>\<open>CANCELLABLE_STATUSES.has(entry.status)\<close>; an undefined status is not a member.\<close>

definition cancellable :: "string option \<Rightarrow> bool" where
  "cancellable status =
     (case status of None \<Rightarrow> False | Some st \<Rightarrow> st \<in> set CANCELLABLE_STATUSES)"

definition MAX_DOWNLOAD_ENTRIES :: nat where
  "MAX_DOWNLOAD_ENTRIES = 8"

text \<open>\<^verbatim>\<open>a || b\<close> on the date strings of a job snapshot.\<close>

definition dateOr :: "js_date \<Rightarrow> js_date \<Rightarrow> js_date" where
  "dateOr a b = (if a = Missing then b else a)"

definition parseDate :: "js_date \<Rightarrow> int option" where
  "parseDate v = (case v of Valid t \<Rightarrow> Some t | _ \<Rightarrow> None)"

definition normaliseJob :: "job \<Rightarrow> int \<Rightarrow> update option" where
  "normaliseJob job now =
     (if j_id job = [] then None
      else
        let status0 = orElse (j_status job) ''queued'';
            status1 = (if status0 = ''completed'' then ''complete'' else status0);
            status = (if \<not> hasStatusLabel status1 then ''queued'' else status1);
            startedAt = (case parseDate (dateOr (j_started_at job) (j_created_at job)) of
                           Some t \<Rightarrow> t | None \<Rightarrow> now);
            updatedAt = (case parseDate (dateOr (j_updated_at job) (dateOr (j_completed_at job)
                                (dateOr (j_started_at job) (j_created_at job)))) of
                           Some t \<Rightarrow> t | None \<Rightarrow> startedAt);
            metadata = (case j_metadata job of Some m \<Rightarrow> m | None \<Rightarrow> [])
        in Some \<lparr>u_id = j_id job,
                 u_label = Some (orElse (j_label job) ''Radarr Download''),
                 u_subtitle = Some (j_subtitle job),
                 u_status = Some status,
                 u_progress = Some (case j_progress job of
                                      Some p \<Rightarrow> max 0 (min 100 p) | None \<Rightarrow> 0),
                 u_metadata = Some metadata,
                 u_message = Some (j_message job),
                 u_startedAt = Some startedAt,
                 u_updatedAt = Some updatedAt\<rparr>)"

text \<open>The object built in the merge branch of \<^verbatim>\<open>upsertDownload\<close> (part_003).\<close>

definition mergeEntry :: "entry \<Rightarrow> update \<Rightarrow> int \<Rightarrow> entry" where
  "mergeEntry existing upd now =
     \<lparr>e_id = u_id upd,
      e_label = (case u_label upd of Some l \<Rightarrow> Some l | None \<Rightarrow> e_label existing),
      e_subtitle = (case u_subtitle upd of Some x \<Rightarrow> x | None \<Rightarrow> e_subtitle existing),
      e_status = (case u_status upd of Some st \<Rightarrow> Some st | None \<Rightarrow> e_status existing),
      e_progress = (case u_progress upd of Some p \<Rightarrow> p | None \<Rightarrow> e_progress existing),
      e_metadata = (case u_metadata upd of Some m \<Rightarrow> m | None \<Rightarrow> e_metadata existing),
      e_message = (case u_message upd of Some x \<Rightarrow> x | None \<Rightarrow> e_message existing),
      e_startedAt = (case u_startedAt upd of Some t \<Rightarrow> t | None \<Rightarrow> e_startedAt existing),
      e_updatedAt = (case u_updatedAt upd of Some t \<Rightarrow> t | None \<Rightarrow> now)\<rparr>"

text \<open>The object pushed in the insert branch.\<close>

definition newEntry :: "update \<Rightarrow> int \<Rightarrow> entry" where
  "newEntry upd now =
     \<lparr>e_id = u_id upd,
      e_label = u_label upd,
      e_subtitle = (case u_subtitle upd of Some x \<Rightarrow> x | None \<Rightarrow> []),
      e_status = u_status upd,
      e_progress = (case u_progress upd of Some p \<Rightarrow> p | None \<Rightarrow> 0),
      e_metadata = (case u_metadata upd of Some m \<Rightarrow> m | None \<Rightarrow> []),
      e_message = (case u_message upd of Some x \<Rightarrow> x | None \<Rightarrow> []),
      e_startedAt = (case u_startedAt upd of Some t \<Rightarrow> t | None \<Rightarrow> now),
      e_updatedAt = (case u_updatedAt upd of Some t \<Rightarrow> t | None \<Rightarrow> now)\<rparr>"

fun findIndex :: "('a \<Rightarrow> bool) \<Rightarrow> 'a list \<Rightarrow> nat option" where
  "findIndex P [] = None"
| "findIndex P (x # xs) =
     (if P x then Some 0 else map_option Suc (findIndex P xs))"

section \<open>Page state\<close>

datatype js_error = TypeError string | Error string | SyntaxError string

primrec errMessage :: "js_error \<Rightarrow> string" where
  "errMessage (TypeError m) = m"
| "errMessage (Error m) = m"
| "errMessage (SyntaxError m) = m"

datatype outcome = Done | Threw js_error

record poll_options =
  showConsole :: bool
  notifyNotFound :: bool

datatype request = GetJob string | PostCancel string

record cancel_button =
  b_text :: string
  b_disabled :: bool

text \<open>
  A rendered job card, reduced to the job id and status of its data attributes, the
  selection mark and the cancel button, if one was built.
\<close>

record card =
  c_jobId :: string
  c_status :: "string option"
  c_selected :: bool
  c_cancelButton :: "cancel_button option"

text \<open>
  The state object of part_003 together with the parts of the page and of the browser
  that the job functions act on. \<open>pendingCancellations\<close> is \<open>None\<close> while the property
  is undefined. \<open>consoleDiv\<close> and \<open>downloadsList\<close> are the children of the two elements
  (first child first), \<open>None\<close> when the element is not in the page. \<open>intervals\<close> are the
  timers created by \<^verbatim>\<open>setInterval\<close> and not yet cleared, each with the job id and
  options its callback closes over; \<open>requests\<close> are the fetches issued so far, latest
  first. A timer handle is a positive number, as \<^verbatim>\<open>setInterval\<close> returns it, so the
  test \<^verbatim>\<open>if (timer)\<close> of \<^verbatim>\<open>stopJobPolling\<close> holds for every handle in the map.
\<close>

record state =
  downloads :: "entry list"
  pollers :: "string \<rightharpoonup> nat"
  pendingCancellations :: "string set option"
  debugMode :: bool
  lastLogs :: "string list"
  selectedJobId :: "string option"
  activeConsoleJobId :: "string option"
  consoleDiv :: "log_line list option"
  downloadsList :: "card list option"
  intervals :: "(nat \<times> string \<times> poll_options) list"
  nextTimer :: nat
  requests :: "request list"

text \<open>
  The state literal of part_003 (lines 181 to 209): it has no \<^verbatim>\<open>pendingCancellations\<close>
  property, and nothing in the file assigns one.
\<close>

definition initial_state :: state where
  "initial_state =
     \<lparr>downloads = [],
      pollers = Map.empty,
      pendingCancellations = None,
      debugMode = False,
      lastLogs = [],
      selectedJobId = None,
      activeConsoleJobId = None,
      consoleDiv = Some [],
      downloadsList = Some [],
      intervals = [],
      nextTimer = 1,
      requests = []\<rparr>"


section \<open>Console\<close>

definition appendConsoleLine :: "string \<Rightarrow> string option \<Rightarrow> state \<Rightarrow> state" where
  "appendConsoleLine txt typeOverride s =
     (case consoleDiv s of
        None \<Rightarrow> s
      | Some children \<Rightarrow>
          s\<lparr>consoleDiv := Some (interpretLogLine txt typeOverride # children)\<rparr>)"

definition renderLogLines :: "string list \<Rightarrow> state \<Rightarrow> state" where
  "renderLogLines lines s =
     (if consoleDiv s = None then s
      else
        let s1 = s\<lparr>consoleDiv := Some [], lastLogs := lines\<rparr>;
            filtered = filter (\<lambda>line. debugMode s1 \<or> shouldDisplayLogLine line) lines
        in if filtered = [] then
             (if lines \<noteq> [] \<and> \<not> debugMode s1
              then appendConsoleLine
                     ''Verbose output hidden. Enable debug mode in Settings to view full yt-dlp logs.''
                     (Some ''muted'') s1
              else appendConsoleLine ''No output yet.'' (Some ''muted'') s1)
           else fold (\<lambda>line. appendConsoleLine line None) filtered s1)"

text \<open>\<^verbatim>\<open>setDebugMode\<close>; the copy button it also updates is not part of the model.\<close>

definition setDebugMode :: "bool \<Rightarrow> state \<Rightarrow> state" where
  "setDebugMode v s =
     (let changed = (debugMode s \<noteq> v);
          s1 = s\<lparr>debugMode := v\<rparr>
      in if changed \<and> lastLogs s1 \<noteq> [] then renderLogLines (lastLogs s1) s1 else s1)"

section \<open>Pending cancellations\<close>

text \<open>
  A method call on \<^verbatim>\<open>state.pendingCancellations\<close>. While the property is undefined the
  call throws a \<^verbatim>\<open>TypeError\<close> (the text of its message is the engine's).
\<close>

definition undefinedRead :: js_error where
  "undefinedRead = TypeError ''Cannot read properties of undefined''"

definition pcHas :: "string \<Rightarrow> state \<Rightarrow> js_error + bool" where
  "pcHas jobId s =
     (case pendingCancellations s of None \<Rightarrow> Inl undefinedRead | Some pc \<Rightarrow> Inr (jobId \<in> pc))"

definition pcAdd :: "string \<Rightarrow> state \<Rightarrow> outcome \<times> state" where
  "pcAdd jobId s =
     (case pendingCancellations s of
        None \<Rightarrow> (Threw undefinedRead, s)
      | Some pc \<Rightarrow> (Done, s\<lparr>pendingCancellations := Some (insert jobId pc)\<rparr>))"

definition pcDelete :: "string \<Rightarrow> state \<Rightarrow> outcome \<times> state" where
  "pcDelete jobId s =
     (case pendingCancellations s of
        None \<Rightarrow> (Threw undefinedRead, s)
      | Some pc \<Rightarrow> (Done, s\<lparr>pendingCancellations := Some (pc - {jobId})\<rparr>))"

text \<open>Sequencing of two statements: the second runs only when the first did not throw.\<close>

definition andThen ::
  "(state \<Rightarrow> outcome \<times> state) \<Rightarrow> (state \<Rightarrow> outcome \<times> state) \<Rightarrow> state \<Rightarrow> outcome \<times> state"
where
  "andThen f g s = (case f s of (Done, s1) \<Rightarrow> g s1 | (Threw err, s1) \<Rightarrow> (Threw err, s1))"

section \<open>Job cards\<close>

definition ellipsis :: string where
  "ellipsis = [CHR 0xE2, CHR 0x80, CHR 0xA6]"

definition buildDownloadItem :: "entry \<Rightarrow> bool \<Rightarrow> state \<Rightarrow> js_error + card" where
  "buildDownloadItem entry isSelected s =
     (if e_id entry \<noteq> [] \<and> cancellable (e_status entry) then
        (case pcHas (e_id entry) s of
           Inl err \<Rightarrow> Inl err
         | Inr isCancelling \<Rightarrow>
             Inr \<lparr>c_jobId = e_id entry, c_status = e_status entry, c_selected = isSelected,
                  c_cancelButton =
                    Some \<lparr>b_text = (if isCancelling then ''Cancelling'' @ ellipsis else ''Cancel''),
                          b_disabled = isCancelling\<rparr>\<rparr>)
      else Inr \<lparr>c_jobId = e_id entry, c_status = e_status entry, c_selected = isSelected,
                c_cancelButton = None\<rparr>)"

text \<open>The \<^verbatim>\<open>forEach\<close> of \<^verbatim>\<open>renderDownloads\<close>: cards appended before a throw stay.\<close>

fun buildItems :: "entry list \<Rightarrow> state \<Rightarrow> card list \<Rightarrow> outcome \<times> card list" where
  "buildItems [] s acc = (Done, acc)"
| "buildItems (entry # rest) s acc =
     (case buildDownloadItem entry (selectedJobId s = Some (e_id entry)) s of
        Inl err \<Rightarrow> (Threw err, acc)
      | Inr c \<Rightarrow> buildItems rest s (acc @ [c]))"

definition truthyId :: "string option \<Rightarrow> bool" where
  "truthyId v = (case v of None \<Rightarrow> False | Some i \<Rightarrow> i \<noteq> [])"

text \<open>
  \<^verbatim>\<open>renderDownloads\<close>. The placeholder shown for an empty list is not a card, so the
  list of cards is empty then.
\<close>

definition renderDownloads :: "state \<Rightarrow> outcome \<times> state" where
  "renderDownloads s =
     (case downloadsList s of
        None \<Rightarrow> (Done, s)
      | Some _ \<Rightarrow>
          let s1 = s\<lparr>downloadsList := Some []\<rparr>;
              s2 = (if truthyId (selectedJobId s1)
                       \<and> \<not> list_ex (\<lambda>item. Some (e_id item) = selectedJobId s1) (downloads s1)
                    then s1\<lparr>activeConsoleJobId :=
                               (if activeConsoleJobId s1 = selectedJobId s1 then None
                                else activeConsoleJobId s1),
                            selectedJobId := None\<rparr>
                    else s1)
          in if downloads s2 = [] then (Done, s2)
             else (case buildItems (downloads s2) s2 [] of
                     (out, cards) \<Rightarrow> (out, s2\<lparr>downloadsList := Some cards\<rparr>)))"

section \<open>Pollers\<close>

definition stopJobPolling :: "string \<Rightarrow> state \<Rightarrow> state" where
  "stopJobPolling jobId s =
     (if jobId = [] then s
      else (case pollers s jobId of
              None \<Rightarrow> s
            | Some timer \<Rightarrow>
                s\<lparr>intervals := filter (\<lambda>iv. fst iv \<noteq> timer) (intervals s),
                  pollers := (pollers s)(jobId := None)\<rparr>))"

text \<open>
  \<^verbatim>\<open>pollJob\<close> is asynchronous. \<open>pollJob_request\<close> is what runs up to the
  \<^verbatim>\<open>await fetch\<close>; \<open>pollJob_response\<close>, further down, is what runs once the fetch
  has settled.
\<close>

definition pollJob_request :: "string \<Rightarrow> state \<Rightarrow> state" where
  "pollJob_request jobId s =
     (if jobId = [] then s else s\<lparr>requests := GetJob jobId # requests s\<rparr>)"

definition startJobPolling :: "string \<Rightarrow> poll_options \<Rightarrow> state \<Rightarrow> state" where
  "startJobPolling jobId options s =
     (if jobId = [] \<or> pollers s jobId \<noteq> None then s
      else
        let s1 = pollJob_request jobId s;
            timer = nextTimer s1
        in s1\<lparr>intervals := intervals s1 @ [(timer, jobId, options)],
               nextTimer := Suc timer,
               pollers := (pollers s1)(jobId \<mapsto> timer)\<rparr>)"

text \<open>The browser fires the interval \<open>timer\<close>, if it is still active.\<close>

definition tick :: "nat \<Rightarrow> state \<Rightarrow> state" where
  "tick timer s =
     (case map_of (intervals s) timer of
        None \<Rightarrow> s
      | Some (jobId, options) \<Rightarrow> pollJob_request jobId s)"

section \<open>Job store\<close>

text \<open>The first half of \<^verbatim>\<open>upsertDownload\<close>: merge or push; returns \<^verbatim>\<open>updatedEntry\<close>.\<close>

definition upsertStore :: "update \<Rightarrow> int \<Rightarrow> state \<Rightarrow> entry \<times> state" where
  "upsertStore upd now s =
     (case findIndex (\<lambda>item. e_id item = u_id upd) (downloads s) of
        Some index \<Rightarrow>
          (let merged = mergeEntry (downloads s ! index) upd now
           in (merged, s\<lparr>downloads := (downloads s)[index := merged]\<rparr>))
      | None \<Rightarrow>
          (let pushed = newEntry upd now
           in (pushed, s\<lparr>downloads := downloads s @ [pushed]\<rparr>)))"

definition clearSettled :: "entry \<Rightarrow> state \<Rightarrow> outcome \<times> state" where
  "clearSettled updatedEntry s =
     (if e_id updatedEntry \<noteq> [] \<and> \<not> cancellable (e_status updatedEntry)
      then pcDelete (e_id updatedEntry) s
      else (Done, s))"

text \<open>
  \<^verbatim>\<open>Array.prototype.sort\<close> is stable and the comparator orders by descending
  \<^verbatim>\<open>startedAt\<close>; \<^const>\<open>sort_key\<close> is a stable insertion sort.
\<close>

definition sortDownloads :: "state \<Rightarrow> state" where
  "sortDownloads s = s\<lparr>downloads := sort_key (\<lambda>item. - e_startedAt item) (downloads s)\<rparr>"

fun evictAll :: "entry list \<Rightarrow> state \<Rightarrow> outcome \<times> state" where
  "evictAll [] s = (Done, s)"
| "evictAll (entry # rest) s =
     (let s1 = stopJobPolling (e_id entry) s
      in if e_id entry \<noteq> [] then
           (case pcDelete (e_id entry) s1 of
              (Done, s2) \<Rightarrow> evictAll rest s2
            | (Threw err, s2) \<Rightarrow> (Threw err, s2))
         else evictAll rest s1)"

definition evictOverflow :: "state \<Rightarrow> outcome \<times> state" where
  "evictOverflow s =
     (if length (downloads s) > MAX_DOWNLOAD_ENTRIES
      then evictAll (drop MAX_DOWNLOAD_ENTRIES (downloads s))
             (s\<lparr>downloads := take MAX_DOWNLOAD_ENTRIES (downloads s)\<rparr>)
      else (Done, s))"

definition upsertDownload :: "update \<Rightarrow> int \<Rightarrow> state \<Rightarrow> outcome \<times> state" where
  "upsertDownload upd now s =
     (if u_id upd = [] then (Done, s)
      else (case upsertStore upd now s of
              (updatedEntry, s1) \<Rightarrow>
                andThen (clearSettled updatedEntry)
                  (andThen (\<lambda>s2. evictOverflow (sortDownloads s2)) renderDownloads) s1))"

text \<open>
  A sequence of calls, each with the clock value at its time. An exception ends the call
  that raised it, not the sequence: every caller of \<^verbatim>\<open>upsertDownload\<close> catches it.
\<close>

definition upsertAll :: "(update \<times> int) list \<Rightarrow> state \<Rightarrow> state" where
  "upsertAll calls s = fold (\<lambda>(upd, now) s1. snd (upsertDownload upd now s1)) calls s"

definition lookupDownload :: "string \<Rightarrow> state \<Rightarrow> entry option" where
  "lookupDownload jobId s = find (\<lambda>item. e_id item = jobId) (downloads s)"


section \<open>Polling a job and cancelling it\<close>

text \<open>
  How a fetch settles: the promise rejects (a network failure, with the engine's
  message), or it resolves with a response: the \<^verbatim>\<open>ok\<close> flag, the status code in
  decimal digits, and the body, which parses as JSON or makes \<^verbatim>\<open>response.json()\<close>
  reject.
\<close>

datatype 'a body = Json 'a | NotJson string

datatype 'a fetched = Rejected string | Response bool string "'a body"

record job_data =
  d_debug_mode :: "bool option"
  d_job :: "job option"
  d_message :: string
  d_error :: string

text \<open>\<^verbatim>\<open>err && err.message ? err.message : err\<close> inside a template string.\<close>

definition errText :: "js_error \<Rightarrow> string" where
  "errText err =
     (if errMessage err \<noteq> [] then errMessage err
      else (case err of TypeError _ \<Rightarrow> ''TypeError'' | Error _ \<Rightarrow> ''Error''
                      | SyntaxError _ \<Rightarrow> ''SyntaxError''))"

definition isFinalStatus :: "string \<Rightarrow> bool" where
  "isFinalStatus status = (status = ''complete'' \<or> status = ''failed'' \<or> status = ''cancelled'')"

text \<open>The \<^verbatim>\<open>try\<close> block of \<^verbatim>\<open>pollJob\<close>, from the settled fetch on.\<close>

definition pollJob_try ::
  "string \<Rightarrow> poll_options \<Rightarrow> job_data fetched \<Rightarrow> int \<Rightarrow> state \<Rightarrow> outcome \<times> state"
where
  "pollJob_try jobId options resp now s =
     (case resp of
        Rejected msg \<Rightarrow> (Threw (TypeError msg), s)
      | Response ok status body \<Rightarrow>
          if \<not> ok then (Threw (Error (''HTTP '' @ status)), s)
          else (case body of
                  NotJson msg \<Rightarrow> (Threw (SyntaxError msg), s)
                | Json data \<Rightarrow>
                    let s1 = (case d_debug_mode data of
                                Some v \<Rightarrow> setDebugMode v s | None \<Rightarrow> s)
                    in (case d_job data of
                          None \<Rightarrow>
                            (let s2 = (if (showConsole options \<or> activeConsoleJobId s1 = Some jobId)
                                          \<and> notifyNotFound options
                                       then renderLogLines [''ERROR: Job not found or has expired.''] s1
                                       else s1);
                                 s3 = (if activeConsoleJobId s2 = Some jobId
                                       then s2\<lparr>activeConsoleJobId := None\<rparr> else s2)
                             in andThen
                                  (\<lambda>s4. if selectedJobId s4 = Some jobId
                                         then renderDownloads (s4\<lparr>selectedJobId := None\<rparr>)
                                         else (Done, s4))
                                  (\<lambda>s5. pcDelete jobId (stopJobPolling jobId s5)) s3)
                        | Some job \<Rightarrow>
                            andThen
                              (\<lambda>s2. case normaliseJob job now of
                                       Some entry \<Rightarrow> upsertDownload entry now s2
                                     | None \<Rightarrow> (Done, s2))
                              (\<lambda>s3. let show = (showConsole options
                                                  \<or> activeConsoleJobId s3 = Some jobId);
                                         s4 = (case j_logs job of
                                                 Some logs \<Rightarrow>
                                                   if show then renderLogLines logs s3 else s3
                                               | None \<Rightarrow> s3)
                                     in if isFinalStatus (j_status job)
                                        then andThen (pcDelete jobId)
                                               (\<lambda>s5. (Done, stopJobPolling jobId s5)) s4
                                        else (Done, s4)) s1)))"

text \<open>
  \<open>pollJob_response\<close>: the \<^verbatim>\<open>try\<close> block and the \<^verbatim>\<open>catch\<close> block behind it. An
  exception inside the \<^verbatim>\<open>catch\<close> block rejects the promise of \<^verbatim>\<open>pollJob\<close>.
\<close>

definition pollJob_response ::
  "string \<Rightarrow> poll_options \<Rightarrow> job_data fetched \<Rightarrow> int \<Rightarrow> state \<Rightarrow> outcome \<times> state"
where
  "pollJob_response jobId options resp now s =
     (if jobId = [] then (Done, s)
      else (case pollJob_try jobId options resp now s of
              (Done, s1) \<Rightarrow> (Done, s1)
            | (Threw err, s1) \<Rightarrow>
                pcDelete jobId
                  (stopJobPolling jobId
                     (appendConsoleLine
                        (''ERROR: Failed to poll job '' @ jobId @ '': '' @ errText err)
                        (Some ''error'') s1))))"

text \<open>
  \<^verbatim>\<open>cancelJob\<close> up to its \<^verbatim>\<open>await fetch\<close>. These statements stand before the
  \<^verbatim>\<open>try\<close> block: an exception here rejects the promise and no request is sent.
\<close>

definition cancelJob_request :: "string \<Rightarrow> state \<Rightarrow> outcome \<times> state" where
  "cancelJob_request jobId s =
     (if jobId = [] then (Done, s)
      else (case pcHas jobId s of
              Inl err \<Rightarrow> (Threw err, s)
            | Inr True \<Rightarrow> (Done, s)
            | Inr False \<Rightarrow>
                andThen (pcAdd jobId)
                  (andThen renderDownloads
                     (\<lambda>s1. (Done, s1\<lparr>requests := PostCancel jobId # requests s1\<rparr>))) s))"

definition noOptions :: poll_options where
  "noOptions = \<lparr>showConsole = False, notifyNotFound = False\<rparr>"

definition cancelJob_try ::
  "string \<Rightarrow> job_data fetched \<Rightarrow> int \<Rightarrow> state \<Rightarrow> outcome \<times> state"
where
  "cancelJob_try jobId resp now s =
     (case resp of
        Rejected msg \<Rightarrow> (Threw (TypeError msg), s)
      | Response ok status body \<Rightarrow>
          let data = (case body of Json d \<Rightarrow> Some d | NotJson _ \<Rightarrow> None)
          in if \<not> ok then
               (let message =
                      (case data of
                         Some d \<Rightarrow> if d_message d \<noteq> [] then d_message d
                                   else if d_error d \<noteq> [] then d_error d
                                   else ''HTTP '' @ status
                       | None \<Rightarrow> ''HTTP '' @ status)
                in andThen (pcDelete jobId) renderDownloads
                     (appendConsoleLine
                        (''ERROR: Failed to cancel job '' @ jobId @ '': '' @ message)
                        (Some ''error'') s))
             else
               (let s1 = (case data of
                            Some d \<Rightarrow> if d_message d \<noteq> []
                                      then appendConsoleLine (d_message d) None s else s
                          | None \<Rightarrow> s);
                    snapshot = (case data of
                                  Some d \<Rightarrow> (case d_job d of
                                               Some j \<Rightarrow> normaliseJob j now | None \<Rightarrow> None)
                                | None \<Rightarrow> None)
                in andThen
                     (\<lambda>s2. case snapshot of
                              Some upd \<Rightarrow> upsertDownload upd now s2
                            | None \<Rightarrow> renderDownloads s2)
                     (\<lambda>s3. (Done, startJobPolling jobId noOptions s3)) s1))"

definition cancelJob_response ::
  "string \<Rightarrow> job_data fetched \<Rightarrow> int \<Rightarrow> state \<Rightarrow> outcome \<times> state"
where
  "cancelJob_response jobId resp now s =
     (case cancelJob_try jobId resp now s of
        (Done, s1) \<Rightarrow> (Done, s1)
      | (Threw err, s1) \<Rightarrow>
          andThen (pcDelete jobId) renderDownloads
            (appendConsoleLine
               (''ERROR: Failed to cancel job '' @ jobId @ '': '' @ errText err)
               (Some ''error'') s1))"

section \<open>The job functions of static/script.js\<close>

text \<open>
  static/script.js keeps the records in \<^verbatim>\<open>downloadEntries\<close> and the pollers in
  \<^verbatim>\<open>jobPollers\<close>, a map from the job id to an object with the timer and a
  \<^verbatim>\<open>showConsole\<close> flag that the timer's callback reads at each tick. A timer
  handle is a positive number, so the test \<^verbatim>\<open>info.timer\<close> of \<^verbatim>\<open>stopJobPolling\<close>
  holds for every poller in the map. \<^verbatim>\<open>beginJobPolling\<close> and \<^verbatim>\<open>stopJobPolling\<close> are
  the only functions of the file that touch \<^verbatim>\<open>jobPollers\<close> or a job's timer.
\<close>

record poller_info =
  p_showConsole :: bool
  p_timer :: nat

record static_state =
  downloadEntries :: "entry list"
  hasDownloadsList :: bool
  jobPollers :: "string \<rightharpoonup> poller_info"
  staticIntervals :: "(nat \<times> string) list"
  staticNextTimer :: nat
  staticRequests :: "(string \<times> bool) list"

definition static_upsertDownload :: "update \<Rightarrow> bool \<Rightarrow> int \<Rightarrow> static_state \<Rightarrow> static_state" where
  "static_upsertDownload upd atEnd now s =
     (if \<not> hasDownloadsList s \<or> u_id upd = [] then s
      else (case findIndex (\<lambda>item. e_id item = u_id upd) (downloadEntries s) of
              Some index \<Rightarrow>
                (let existing = downloadEntries s ! index;
                     nextEntry = (mergeEntry existing upd now)\<lparr>e_startedAt := e_startedAt existing\<rparr>
                 in s\<lparr>downloadEntries := (downloadEntries s)[index := nextEntry]\<rparr>)
            | None \<Rightarrow>
                (let entry = newEntry upd now;
                     entries = (if atEnd then downloadEntries s @ [entry]
                                else entry # downloadEntries s)
                 in s\<lparr>downloadEntries := take MAX_DOWNLOAD_ENTRIES entries\<rparr>)))"

definition static_stopJobPolling :: "string \<Rightarrow> static_state \<Rightarrow> static_state" where
  "static_stopJobPolling jobId s =
     (case jobPollers s jobId of
        Some info \<Rightarrow>
          s\<lparr>staticIntervals := filter (\<lambda>iv. fst iv \<noteq> p_timer info) (staticIntervals s),
            jobPollers := (jobPollers s)(jobId := None)\<rparr>
      | None \<Rightarrow> s\<lparr>jobPollers := (jobPollers s)(jobId := None)\<rparr>)"

text \<open>\<^verbatim>\<open>pollJob(jobId, showConsole)\<close> of static/script.js, up to its fetch.\<close>

definition static_pollJob_request :: "string \<Rightarrow> bool \<Rightarrow> static_state \<Rightarrow> static_state" where
  "static_pollJob_request jobId sc s =
     (if jobId = [] then s else s\<lparr>staticRequests := (jobId, sc) # staticRequests s\<rparr>)"

definition beginJobPolling :: "string \<Rightarrow> bool \<Rightarrow> static_state \<Rightarrow> static_state" where
  "beginJobPolling jobId sc s =
     (if jobId = [] then s
      else (case jobPollers s jobId of
              Some existing \<Rightarrow>
                if sc then s\<lparr>jobPollers := (jobPollers s)(jobId \<mapsto> existing\<lparr>p_showConsole := True\<rparr>)\<rparr>
                else s
            | None \<Rightarrow>
                (let timer = staticNextTimer s;
                     s1 = s\<lparr>staticIntervals := staticIntervals s @ [(timer, jobId)],
                            staticNextTimer := Suc timer,
                            jobPollers := (jobPollers s)(jobId \<mapsto>
                                             \<lparr>p_showConsole = sc, p_timer = timer\<rparr>)\<rparr>
                 in static_pollJob_request jobId sc s1)))"

definition static_tick :: "nat \<Rightarrow> static_state \<Rightarrow> static_state" where
  "static_tick timer s =
     (case map_of (staticIntervals s) timer of
        None \<Rightarrow> s
      | Some jobId \<Rightarrow>
          static_pollJob_request jobId
            (case jobPollers s jobId of Some current \<Rightarrow> p_showConsole current | None \<Rightarrow> False) s)"

text \<open>
  \<^verbatim>\<open>jobToEntry\<close>, the \<^verbatim>\<open>normaliseJob\<close> of static/script.js: its table of status labels
  has no entry for cancelled, and the date of the last update falls back to the clock.
\<close>

definition static_STATUS_LABELS :: "string list" where
  "static_STATUS_LABELS = [''queued'', ''processing'', ''complete'', ''failed'']"

definition jobToEntry :: "job \<Rightarrow> int \<Rightarrow> update option" where
  "jobToEntry job now =
     (if j_id job = [] then None
      else
        let status0 = orElse (j_status job) ''queued'';
            status1 = (if status0 = ''completed'' then ''complete'' else status0);
            status = (if status1 \<notin> set static_STATUS_LABELS \<and> status1 \<notin> set objectPrototypeKeys
                      then ''queued'' else status1);
            startedAt = (case parseDate (dateOr (j_started_at job) (j_created_at job)) of
                           Some t \<Rightarrow> t | None \<Rightarrow> now);
            updatedAt = (case parseDate (dateOr (j_updated_at job)
                                (dateOr (j_started_at job) (j_created_at job))) of
                           Some t \<Rightarrow> t | None \<Rightarrow> now)
        in Some \<lparr>u_id = j_id job,
                 u_label = Some (orElse (j_label job) ''Radarr Download''),
                 u_subtitle = Some (j_subtitle job),
                 u_status = Some status,
                 u_progress = Some (case j_progress job of
                                      Some p \<Rightarrow> max 0 (min 100 p) | None \<Rightarrow> 0),
                 u_metadata = Some (case j_metadata job of Some m \<Rightarrow> m | None \<Rightarrow> []),
                 u_message = Some (j_message job),
                 u_startedAt = Some startedAt,
                 u_updatedAt = Some updatedAt\<rparr>)"

text \<open>
  The handlers that \<^verbatim>\<open>pollJob\<close> of static/script.js chains on its fetch, as far as the
  records and the pollers go (they also show the logs of the job in the console). A
  rejected fetch and a body that is not JSON end in the empty \<^verbatim>\<open>catch\<close> handler.
\<close>

definition static_pollJob_response ::
  "string \<Rightarrow> job_data fetched \<Rightarrow> int \<Rightarrow> static_state \<Rightarrow> static_state"
where
  "static_pollJob_response jobId resp now s =
     (case resp of
        Rejected msg \<Rightarrow> s
      | Response ok status body \<Rightarrow>
          if \<not> ok then (if status = ''404'' then static_stopJobPolling jobId s else s)
          else (case body of
                  NotJson msg \<Rightarrow> s
                | Json data \<Rightarrow>
                    (case d_job data of
                       None \<Rightarrow> s
                     | Some job \<Rightarrow>
                         (case jobToEntry job now of
                            None \<Rightarrow> s
                          | Some entry \<Rightarrow>
                              let s1 = static_upsertDownload entry False now s
                              in if u_status entry = Some ''complete''
                                    \<or> u_status entry = Some ''failed''
                                 then static_stopJobPolling jobId s1
                                 else s1))))"


section \<open>Search coordinators\<close>

text \<open>
  The two coordinators act on their own sub-object of the state (\<^verbatim>\<open>state.youtubeSearch\<close>,
  \<^verbatim>\<open>state.addMovie\<close>) and on their own elements, which are taken to be in the page. Each
  record below holds the sub-object, the elements and the fetches issued so far (the query
  and the token of the request, latest first). Of a rendered result only its title text is
  kept. The browser is taken to have \<^verbatim>\<open>AbortController\<close>: \<open>yt_controller\<close> is the token
  of the request that owns the stored controller, \<open>yt_aborted\<close> the requests whose
  controller was aborted.
\<close>

record feedback =
  f_text :: string
  f_hidden :: bool
  f_state :: "string option"

record yt_result =
  r_url :: string
  r_title :: string

record youtube_search =
  yt_timeout :: "string option"
  yt_token :: nat
  yt_controller :: "nat option"
  yt_aborted :: "nat list"
  yt_loading :: bool
  yt_results :: "yt_result list"
  yt_input :: string
  yt_rendered :: "string list"
  yt_renderedHidden :: bool
  yt_feedback :: feedback
  yt_fetches :: "(string \<times> nat) list"

definition YT_SEARCH_MIN_QUERY_LENGTH :: nat where
  "YT_SEARCH_MIN_QUERY_LENGTH = 3"

definition abortYouTubeSearch :: "youtube_search \<Rightarrow> youtube_search" where
  "abortYouTubeSearch s =
     (case yt_controller s of
        Some owner \<Rightarrow> s\<lparr>yt_aborted := owner # yt_aborted s, yt_controller := None\<rparr>
      | None \<Rightarrow> s\<lparr>yt_controller := None\<rparr>)"

definition setYouTubeSearchLoading :: "bool \<Rightarrow> youtube_search \<Rightarrow> youtube_search" where
  "setYouTubeSearchLoading loading s = s\<lparr>yt_loading := loading\<rparr>"

definition setYouTubeSearchFeedback ::
  "string \<Rightarrow> string option \<Rightarrow> youtube_search \<Rightarrow> youtube_search"
where
  "setYouTubeSearchFeedback message type s =
     (if message = []
      then s\<lparr>yt_feedback := \<lparr>f_text = [], f_hidden = True, f_state = None\<rparr>\<rparr>
      else s\<lparr>yt_feedback :=
               \<lparr>f_text = message, f_hidden = False,
                f_state = (case type of Some t \<Rightarrow> if t = [] then None else Some t
                                      | None \<Rightarrow> None)\<rparr>\<rparr>)"

definition renderYouTubeSearchResults :: "youtube_search \<Rightarrow> youtube_search" where
  "renderYouTubeSearchResults s =
     (if yt_results s = [] then s\<lparr>yt_rendered := [], yt_renderedHidden := True\<rparr>
      else s\<lparr>yt_rendered := map (\<lambda>r. orElse (r_title r) ''Untitled'')
                                (filter (\<lambda>r. r_url r \<noteq> []) (yt_results s)),
             yt_renderedHidden := False\<rparr>)"

definition clearYouTubeSearchResults :: "youtube_search \<Rightarrow> youtube_search" where
  "clearYouTubeSearchResults s = renderYouTubeSearchResults (s\<lparr>yt_results := []\<rparr>)"

text \<open>\<^verbatim>\<open>performYouTubeSearch(query, token)\<close> up to its \<^verbatim>\<open>await fetch\<close>.\<close>

definition performYouTubeSearch_request :: "string \<Rightarrow> nat \<Rightarrow> youtube_search \<Rightarrow> youtube_search" where
  "performYouTubeSearch_request query token s =
     (if query = [] \<or> length query < YT_SEARCH_MIN_QUERY_LENGTH
      then setYouTubeSearchFeedback ''Enter at least 3 characters to search YouTube.''
             (Some ''info'') (clearYouTubeSearchResults s)
      else
        let s1 = setYouTubeSearchFeedback (''Searching YouTube'' @ ellipsis) None
                   (setYouTubeSearchLoading True (abortYouTubeSearch s))
        in s1\<lparr>yt_controller := Some token, yt_fetches := (query, token) # yt_fetches s1\<rparr>)"

definition scheduleYouTubeSearch :: "bool \<Rightarrow> youtube_search \<Rightarrow> youtube_search" where
  "scheduleYouTubeSearch immediate s =
     (let s1 = s\<lparr>yt_timeout := None\<rparr>;
          query = trim (yt_input s1)
      in if immediate
         then (let s2 = s1\<lparr>yt_token := yt_token s1 + 1\<rparr>
               in performYouTubeSearch_request query (yt_token s2) s2)
         else s1\<lparr>yt_timeout := Some query\<rparr>)"

text \<open>The debounce timer fires.\<close>

definition youtubeTimeoutFires :: "youtube_search \<Rightarrow> youtube_search" where
  "youtubeTimeoutFires s =
     (case yt_timeout s of
        None \<Rightarrow> s
      | Some query \<Rightarrow>
          (let s1 = s\<lparr>yt_timeout := None, yt_token := yt_token s + 1\<rparr>
           in performYouTubeSearch_request query (yt_token s1) s1))"

text \<open>A rejected promise: whether the error is an \<^verbatim>\<open>AbortError\<close>, and its message.\<close>

datatype failure = Failure bool string

datatype headers = FetchFailed failure | FetchResponse bool string

record yt_data =
  y_results :: "yt_result list option"
  y_cached :: bool

datatype yt_body = BodyFailed failure | BodyJson yt_data

definition youtubeFinally :: "nat \<Rightarrow> youtube_search \<Rightarrow> youtube_search" where
  "youtubeFinally token s =
     (if token = yt_token s
      then (setYouTubeSearchLoading False s)\<lparr>yt_controller := None\<rparr>
      else s)"

definition youtubeCatch :: "nat \<Rightarrow> failure \<Rightarrow> youtube_search \<Rightarrow> youtube_search" where
  "youtubeCatch token err s =
     youtubeFinally token
       (if token \<noteq> yt_token s then s
        else (case err of
                Failure isAbort message \<Rightarrow>
                  if \<not> isAbort
                  then clearYouTubeSearchResults
                         (setYouTubeSearchFeedback (''Failed to search YouTube: '' @ message)
                            (Some ''error'') s)
                  else s))"

text \<open>
  The continuation after \<^verbatim>\<open>await fetch\<close>. The Boolean says whether the function
  goes on to \<^verbatim>\<open>await response.json()\<close>.
\<close>

definition performYouTubeSearch_fetched ::
  "nat \<Rightarrow> headers \<Rightarrow> youtube_search \<Rightarrow> bool \<times> youtube_search"
where
  "performYouTubeSearch_fetched token resp s =
     (case resp of
        FetchFailed err \<Rightarrow> (False, youtubeCatch token err s)
      | FetchResponse ok status \<Rightarrow>
          if token \<noteq> yt_token s then (False, youtubeFinally token s)
          else if \<not> ok then (False, youtubeCatch token (Failure False (''HTTP '' @ status)) s)
          else (True, s))"

text \<open>The continuation after \<^verbatim>\<open>await response.json()\<close>.\<close>

definition performYouTubeSearch_parsed :: "nat \<Rightarrow> yt_body \<Rightarrow> youtube_search \<Rightarrow> youtube_search" where
  "performYouTubeSearch_parsed token body s =
     (case body of
        BodyFailed err \<Rightarrow> youtubeCatch token err s
      | BodyJson data \<Rightarrow>
          let results = (case y_results data of Some rs \<Rightarrow> rs | None \<Rightarrow> []);
              s1 = s\<lparr>yt_results := results\<rparr>;
              s2 = (if results = []
                    then setYouTubeSearchFeedback ''No results found for that query.''
                           (Some ''warning'') s1
                    else if y_cached data
                    then setYouTubeSearchFeedback ''Showing cached results.'' (Some ''success'') s1
                    else setYouTubeSearchFeedback ''Search complete.'' (Some ''success'') s1)
          in youtubeFinally token (renderYouTubeSearchResults s2))"

record movie =
  m_tmdbId :: nat
  m_title :: string
  m_year :: string

record add_movie =
  am_modalOpen :: bool
  am_searchTimeout :: "string option"
  am_searchToken :: nat
  am_loading :: bool
  am_results :: "movie list"
  am_selectedIndex :: int
  am_selectedMovie :: "movie option"
  am_adding :: bool
  am_query :: string
  am_input :: string
  am_rendered :: "string list"
  am_renderedHidden :: bool
  am_status :: feedback
  am_previewHidden :: bool
  am_confirmDisabled :: bool
  am_fetches :: "(string \<times> nat) list"

text \<open>The state literal of part_003 and the modal as the page first shows it.\<close>

definition initial_add_movie :: add_movie where
  "initial_add_movie =
     \<lparr>am_modalOpen = False, am_searchTimeout = None, am_searchToken = 0, am_loading = False,
      am_results = [], am_selectedIndex = - 1, am_selectedMovie = None, am_adding = False,
      am_query = [], am_input = [], am_rendered = [], am_renderedHidden = True,
      am_status = \<lparr>f_text = [], f_hidden = False, f_state = None\<rparr>,
      am_previewHidden = True, am_confirmDisabled = True, am_fetches = []\<rparr>"

definition setAddMovieStatus :: "string \<Rightarrow> string \<Rightarrow> add_movie \<Rightarrow> add_movie" where
  "setAddMovieStatus message type s =
     (let txt = trim message
      in if txt = [] then s\<lparr>am_status := (am_status s)\<lparr>f_text := [], f_state := None\<rparr>\<rparr>
         else s\<lparr>am_status := (am_status s)\<lparr>f_text := txt,
                   f_state := Some (if type = ''success'' then ''is-success''
                                    else if type = ''error'' then ''is-error''
                                    else if type = ''warning'' then ''is-warning''
                                    else ''is-info'')\<rparr>\<rparr>)"

definition clearAddMoviePreview :: "add_movie \<Rightarrow> add_movie" where
  "clearAddMoviePreview s =
     s\<lparr>am_selectedMovie := None, am_previewHidden := True, am_confirmDisabled := True\<rparr>"

definition movieText :: "movie \<Rightarrow> string" where
  "movieText m =
     (let title = orElse (trim (m_title m)) ''Movie'';
          year = trim (m_year m)
      in if year \<noteq> [] then title @ '' ('' @ year @ '')'' else title)"

definition renderAddMovieResults :: "add_movie \<Rightarrow> add_movie" where
  "renderAddMovieResults s =
     (if am_results s = [] then s\<lparr>am_rendered := [], am_renderedHidden := True\<rparr>
      else s\<lparr>am_rendered := map movieText (am_results s), am_renderedHidden := False\<rparr>)"

definition resetAddMovieState :: "add_movie \<Rightarrow> add_movie" where
  "resetAddMovieState s =
     clearAddMoviePreview
       (renderAddMovieResults
          (setAddMovieStatus [] ''info''
             (s\<lparr>am_searchTimeout := None, am_loading := False, am_results := [],
                am_selectedIndex := - 1, am_selectedMovie := None, am_adding := False,
                am_query := []\<rparr>)))"

text \<open>\<^verbatim>\<open>performAddMovieSearch(query)\<close> up to its \<^verbatim>\<open>await fetch\<close>.\<close>

definition performAddMovieSearch_request :: "string \<Rightarrow> add_movie \<Rightarrow> add_movie" where
  "performAddMovieSearch_request query s =
     (let token = am_searchToken s + 1;
          s1 = setAddMovieStatus (''Searching Radarr'' @ ellipsis) ''info''
                 (s\<lparr>am_searchToken := token, am_loading := True\<rparr>)
      in s1\<lparr>am_confirmDisabled := True, am_fetches := (query, token) # am_fetches s1\<rparr>)"

definition scheduleAddMovieSearch :: "bool \<Rightarrow> add_movie \<Rightarrow> add_movie" where
  "scheduleAddMovieSearch immediate s =
     (let query = trim (am_input s);
          s1 = s\<lparr>am_query := query, am_searchTimeout := None\<rparr>
      in if query = [] \<or> length query < 2
         then setAddMovieStatus ''Enter at least 2 characters to search Radarr.'' ''info''
                (resetAddMovieState s1)
         else if immediate then performAddMovieSearch_request query s1
         else s1\<lparr>am_searchTimeout := Some query\<rparr>)"

definition addMovieTimeoutFires :: "add_movie \<Rightarrow> add_movie" where
  "addMovieTimeoutFires s =
     (case am_searchTimeout s of
        None \<Rightarrow> s
      | Some query \<Rightarrow> performAddMovieSearch_request query s)"

definition openAddMovieModal :: "string \<Rightarrow> add_movie \<Rightarrow> add_movie" where
  "openAddMovieModal initialQuery s =
     (let s1 = resetAddMovieState (s\<lparr>am_modalOpen := True, am_searchToken := 0\<rparr>);
          query = trim initialQuery;
          s2 = s1\<lparr>am_input := query\<rparr>
      in if length query \<ge> 2 then scheduleAddMovieSearch True s2
         else setAddMovieStatus ''Enter at least 2 characters to search Radarr.'' ''info'' s2)"

definition closeAddMovieModal :: "add_movie \<Rightarrow> add_movie" where
  "closeAddMovieModal s =
     (if \<not> am_modalOpen s then s
      else (resetAddMovieState s)\<lparr>am_modalOpen := False\<rparr>)"

record radarr_data =
  rd_results :: "movie list option"
  rd_error :: string

definition showEmptyAddMovieResults :: "add_movie \<Rightarrow> add_movie" where
  "showEmptyAddMovieResults s =
     clearAddMoviePreview
       (renderAddMovieResults
          (s\<lparr>am_results := [], am_selectedIndex := - 1, am_selectedMovie := None\<rparr>))"

definition addMovieFinally :: "nat \<Rightarrow> add_movie \<Rightarrow> add_movie" where
  "addMovieFinally token s = (if token = am_searchToken s then s\<lparr>am_loading := False\<rparr> else s)"

text \<open>
  The continuation of \<^verbatim>\<open>performAddMovieSearch\<close> once the fetch and the reading of the
  body have settled (the function reads no state between the two). A body that is not
  JSON counts as the empty object.
\<close>

definition performAddMovieSearch_response ::
  "nat \<Rightarrow> radarr_data fetched \<Rightarrow> add_movie \<Rightarrow> add_movie"
where
  "performAddMovieSearch_response token resp s =
     addMovieFinally token
       (case resp of
          Rejected msg \<Rightarrow>
            if token \<noteq> am_searchToken s then s
            else setAddMovieStatus (''Failed to search Radarr: '' @ msg) ''error''
                   (showEmptyAddMovieResults s)
        | Response ok status body \<Rightarrow>
            let data = (case body of Json d \<Rightarrow> d
                                   | NotJson _ \<Rightarrow> \<lparr>rd_results = None, rd_error = []\<rparr>)
            in if token \<noteq> am_searchToken s then s
               else if \<not> ok then
                 setAddMovieStatus
                   (orElse (rd_error data) (''Search failed (HTTP '' @ status @ '').''))
                   ''error'' (showEmptyAddMovieResults s)
               else
                 (let results = (case rd_results data of
                                   Some rs \<Rightarrow> filter (\<lambda>item. m_tmdbId item \<noteq> 0) rs
                                 | None \<Rightarrow> []);
                      s1 = clearAddMoviePreview
                             (renderAddMovieResults
                                (s\<lparr>am_results := results, am_selectedIndex := - 1,
                                   am_selectedMovie := None\<rparr>))
                  in if results = []
                     then setAddMovieStatus ''No matches found in Radarr for that search.''
                            ''warning'' s1
                     else setAddMovieStatus ''Select a movie below to add it to Radarr.''
                            ''info'' s1))"


section \<open>Sequences of calls, invariants and sample inputs\<close>

abbreviation newestFirst :: "entry list \<Rightarrow> entry list" where
  "newestFirst ds \<equiv> sort_key (\<lambda>item. - e_startedAt item) ds"

text \<open>
  The store holds a record for \<open>jobId\<close> before and after every call of a sequence:
  no call of the sequence drops the record at the splice.
\<close>

fun held :: "string \<Rightarrow> (update \<times> int) list \<Rightarrow> state \<Rightarrow> bool" where
  "held jobId [] s = (lookupDownload jobId s \<noteq> None)"
| "held jobId (call # calls) s =
     (lookupDownload jobId s \<noteq> None
      \<and> held jobId calls (snd (upsertDownload (fst call) (snd call) s)))"

text \<open>
  The \<^verbatim>\<open>startedAt\<close> carried by the last call of a sequence that carries one, and \<open>t\<close>
  when no call does.
\<close>

definition lastStartedAt :: "int \<Rightarrow> (update \<times> int) list \<Rightarrow> int" where
  "lastStartedAt t calls =
     fold (\<lambda>(upd, now) t1. case u_startedAt upd of Some t2 \<Rightarrow> t2 | None \<Rightarrow> t1) calls t"

definition static_upsertAll :: "bool \<Rightarrow> (update \<times> int) list \<Rightarrow> static_state \<Rightarrow> static_state" where
  "static_upsertAll atEnd calls s =
     fold (\<lambda>(upd, now) s1. static_upsertDownload upd atEnd now s1) calls s"

definition initial_static :: static_state where
  "initial_static =
     \<lparr>downloadEntries = [], hasDownloadsList = True, jobPollers = Map.empty,
      staticIntervals = [], staticNextTimer = 1, staticRequests = []\<rparr>"

text \<open>The active timers whose callback polls \<open>jobId\<close>, and the polls sent for it so far.\<close>

definition timersOf :: "string \<Rightarrow> state \<Rightarrow> nat list" where
  "timersOf jobId s = map fst (filter (\<lambda>iv. fst (snd iv) = jobId) (intervals s))"

definition fetchesFor :: "string \<Rightarrow> state \<Rightarrow> nat" where
  "fetchesFor jobId s = length (filter (\<lambda>r. r = GetJob jobId) (requests s))"

text \<open>
  The poller map and the browser's timers agree: every active timer is the one the map
  records for its job, timer handles are not reused, and the empty id has no poller.
\<close>

definition pollers_ok :: "state \<Rightarrow> bool" where
  "pollers_ok s =
     (pollers s [] = None \<and> distinct (map fst (intervals s))
      \<and> (\<forall>iv\<in>set (intervals s). pollers s (fst (snd iv)) = Some (fst iv) \<and> fst iv < nextTimer s))"

text \<open>
  The same for static/script.js: the active timers of a job, the polls sent for it, and
  the agreement of \<^verbatim>\<open>jobPollers\<close> with the timers.
\<close>

definition static_timersOf :: "string \<Rightarrow> static_state \<Rightarrow> nat list" where
  "static_timersOf jobId s = map fst (filter (\<lambda>iv. snd iv = jobId) (staticIntervals s))"

definition static_fetchesFor :: "string \<Rightarrow> static_state \<Rightarrow> nat" where
  "static_fetchesFor jobId s = length (filter (\<lambda>r. fst r = jobId) (staticRequests s))"

definition static_pollers_ok :: "static_state \<Rightarrow> bool" where
  "static_pollers_ok s =
     (distinct (map fst (staticIntervals s))
      \<and> (\<forall>iv\<in>set (staticIntervals s).
            map_option p_timer (jobPollers s (snd iv)) = Some (fst iv)
            \<and> fst iv < staticNextTimer s))"

definition withConsole :: poll_options where
  "withConsole = \<lparr>showConsole = True, notifyNotFound = False\<rparr>"

text \<open>
  A job snapshot as \<^verbatim>\<open>/jobs/{id}\<close> sends it, with the id, the status and the two start
  dates given and every other field absent; and the successful response that carries it.
\<close>

definition jobSnapshot :: "string \<Rightarrow> string \<Rightarrow> js_date \<Rightarrow> js_date \<Rightarrow> job" where
  "jobSnapshot jobId status startedAt createdAt =
     \<lparr>j_id = jobId, j_status = status, j_label = [], j_subtitle = [], j_message = [],
      j_progress = None, j_metadata = None, j_started_at = startedAt, j_created_at = createdAt,
      j_updated_at = Missing, j_completed_at = Missing, j_logs = None\<rparr>"

definition jobResponse :: "job \<Rightarrow> job_data fetched" where
  "jobResponse j =
     Response True ''200'' (Json \<lparr>d_debug_mode = None, d_job = Some j, d_message = [], d_error = []\<rparr>)"

text \<open>
  A queued job as the submit handler hands it to \<^verbatim>\<open>upsertDownload\<close>, the page after
  that call, and the page after \<^verbatim>\<open>startJobPolling\<close> has then been called for the job.
\<close>

definition queuedJob :: update where
  "queuedJob = the (normaliseJob (jobSnapshot ''j1'' ''queued'' Missing Missing) 5)"

definition withQueuedJob :: state where
  "withQueuedJob = snd (upsertDownload queuedJob 5 initial_state)"

definition pollingQueuedJob :: state where
  "pollingQueuedJob = startJobPolling ''j1'' noOptions withQueuedJob"

text \<open>Two snapshots of one job: queued with a creation date, then started.\<close>

definition queuedThenStarted :: "(update \<times> int) list" where
  "queuedThenStarted =
     [(the (normaliseJob (jobSnapshot ''j1'' ''queued'' Missing (Valid 1000)) 1500), 1500),
      (the (normaliseJob (jobSnapshot ''j1'' ''processing'' (Valid 2000) (Valid 1000)) 2500), 2500)]"

text \<open>Nine finished jobs, each upserted one millisecond after the other.\<close>

definition nineFinished :: "(update \<times> int) list" where
  "nineFinished =
     map (\<lambda>i. (the (normaliseJob (jobSnapshot (''job'' @ [char_of (48 + i)]) ''complete''
                                    Missing Missing) (int i)), int i))
         [1..<10]"

definition alienResponse :: "radarr_data fetched" where
  "alienResponse =
     Response True ''200''
       (Json \<lparr>rd_results = Some [\<lparr>m_tmdbId = 348, m_title = ''Alien'', m_year = ''1979''\<rparr>],
              rd_error = []\<rparr>)"

text \<open>
  The modal is opened with a query, closed while that search is in flight, and opened
  again with another query.
\<close>

definition reopened :: add_movie where
  "reopened = openAddMovieModal ''aliens''
                (closeAddMovieModal (openAddMovieModal ''alien'' initial_add_movie))"

text \<open>
  The handlers that can run between the dispatch of a search and the arrival of its
  response: the search field receives the text \<^verbatim>\<open>v\<close> (an \<^verbatim>\<open>input\<close> event, or with
  the flag set the Enter key or the Search button), the debounce timer fires, a
  continuation of an earlier request runs, and for the Radarr search the modal is closed
  or opened.
\<close>

datatype youtube_event =
    YtInput string bool
  | YtTimeout
  | YtFetched nat headers
  | YtParsed nat yt_body

fun youtubeStep :: "youtube_event \<Rightarrow> youtube_search \<Rightarrow> youtube_search" where
  "youtubeStep (YtInput v immediate) s = scheduleYouTubeSearch immediate (s\<lparr>yt_input := v\<rparr>)"
| "youtubeStep YtTimeout s = youtubeTimeoutFires s"
| "youtubeStep (YtFetched token resp) s = snd (performYouTubeSearch_fetched token resp s)"
| "youtubeStep (YtParsed token body) s = performYouTubeSearch_parsed token body s"

datatype add_movie_event =
    AmInput string bool
  | AmTimeout
  | AmResponse nat "radarr_data fetched"
  | AmClose
  | AmOpen string

fun addMovieStep :: "add_movie_event \<Rightarrow> add_movie \<Rightarrow> add_movie" where
  "addMovieStep (AmInput v immediate) s = scheduleAddMovieSearch immediate (s\<lparr>am_input := v\<rparr>)"
| "addMovieStep AmTimeout s = addMovieTimeoutFires s"
| "addMovieStep (AmResponse token resp) s = performAddMovieSearch_response token resp s"
| "addMovieStep AmClose s = closeAddMovieModal s"
| "addMovieStep (AmOpen initialQuery) s = openAddMovieModal initialQuery s"

fun reopens :: "add_movie_event \<Rightarrow> bool" where
  "reopens (AmOpen _) = True"
| "reopens _ = False"

section \<open>Properties of the log classifier and of the console\<close>

lemma startsWith_Cons_hd: "startsWith s (c # p) \<Longrightarrow> \<exists>r. s = c # r"
  by (cases s) (auto simp: startsWith_def)

lemma all_dropWhile: "(\<forall>x\<in>set (dropWhile P xs). P x) \<longleftrightarrow> (\<forall>x\<in>set xs. P x)"
  by (induction xs) auto

lemma trim_empty_iff: "trim line = [] \<longleftrightarrow> (\<forall>c\<in>set line. isWhiteSpace c)"
  by (simp add: trim_def dropWhile_eq_Nil_conv all_dropWhile)

lemma lowered_empty: "trim line = [] \<Longrightarrow> lowered line = []"
  by (simp add: lowered_def toLowerCase_def)

lemma no_terminator_rest:
  "\<not> list_ex isLineTerminator t \<Longrightarrow>
   \<not> list_ex isLineTerminator (dropWhile isWhiteSpace (drop n t))"
  by (auto simp: list_ex_iff dest!: set_dropWhileD in_set_dropD)

lemma lower_keywords:
  "toLowerCase ''ERROR:'' = ''error:''"
  "toLowerCase ''WARNING:'' = ''warning:''"
  "toLowerCase ''DEBUG:'' = ''debug:''"
  by code_simp+

lemma matchKeyword_ERROR:
  assumes "\<not> list_ex isLineTerminator t"
  shows "matchKeyword ''ERROR:'' t =
     (if toLowerCase (take 6 t) = ''error:''
      then Some (dropWhile isWhiteSpace (drop 6 t)) else None)"
proof -
  have len: "length ''ERROR:'' = 6" by simp
  show ?thesis
    unfolding matchKeyword_def len lower_keywords
    using assms by (simp add: Let_def no_terminator_rest)
qed

lemma matchKeyword_WARNING:
  assumes "\<not> list_ex isLineTerminator t"
  shows "matchKeyword ''WARNING:'' t =
     (if toLowerCase (take 8 t) = ''warning:''
      then Some (dropWhile isWhiteSpace (drop 8 t)) else None)"
proof -
  have len: "length ''WARNING:'' = 8" by simp
  show ?thesis
    unfolding matchKeyword_def len lower_keywords
    using assms by (simp add: Let_def no_terminator_rest)
qed

lemma matchKeyword_DEBUG:
  assumes "\<not> list_ex isLineTerminator t"
  shows "matchKeyword ''DEBUG:'' t =
     (if toLowerCase (take 6 t) = ''debug:''
      then Some (dropWhile isWhiteSpace (drop 6 t)) else None)"
proof -
  have len: "length ''DEBUG:'' = 6" by simp
  show ?thesis
    unfolding matchKeyword_def len lower_keywords
    using assms by (simp add: Let_def no_terminator_rest)
qed

lemma interpretLogLine_single_line:
  assumes "\<not> list_ex isLineTerminator (trim line)"
  shows "interpretLogLine line None =
     (let t = trim line in
      if toLowerCase (take 6 t) = ''error:''
        then \<lparr>l_text = orElse (dropWhile isWhiteSpace (drop 6 t)) ''Error'', l_type = ''error''\<rparr>
      else if toLowerCase (take 8 t) = ''warning:''
        then \<lparr>l_text = orElse (dropWhile isWhiteSpace (drop 8 t)) ''Warning'',
              l_type = ''warning''\<rparr>
      else if toLowerCase (take 6 t) = ''debug:''
        then \<lparr>l_text = orElse (dropWhile isWhiteSpace (drop 6 t)) ''Debug'', l_type = ''debug''\<rparr>
      else if startsWith t ''[download]'' then \<lparr>l_text = t, l_type = ''progress''\<rparr>
      else if startsWith t ''[ffmpeg]'' then \<lparr>l_text = t, l_type = ''ffmpeg''\<rparr>
      else \<lparr>l_text = line, l_type = ''info''\<rparr>)"
  using assms
  by (simp add: interpretLogLine_def matchKeyword_ERROR matchKeyword_WARNING
        matchKeyword_DEBUG Let_def)

text \<open>
  C8, as the code has it. For a raw line without forced category whose trimmed text holds
  no line terminator, the rules are applied in order to the trimmed line \<open>t\<close>: an
  \<^verbatim>\<open>ERROR:\<close> prefix (in any letter case) gives category error and the text that follows
  the prefix and its white space, or \<^verbatim>\<open>Error\<close> when nothing follows; a \<^verbatim>\<open>WARNING:\<close>
  prefix gives warning and a \<^verbatim>\<open>DEBUG:\<close> prefix gives debug in the same way; a
  \<^verbatim>\<open>[download]\<close> prefix gives progress and a \<^verbatim>\<open>[ffmpeg]\<close> prefix gives ffmpeg, both
  with the trimmed line as text; any other line gives info with the text unchanged. The
  three examples of the claim hold.
\<close>

theorem interpretLogLine_rules:
  "(\<not> list_ex isLineTerminator (trim line) \<longrightarrow>
      interpretLogLine line None =
        (let t = trim line in
         if toLowerCase (take 6 t) = ''error:''
           then \<lparr>l_text = orElse (dropWhile isWhiteSpace (drop 6 t)) ''Error'',
                 l_type = ''error''\<rparr>
         else if toLowerCase (take 8 t) = ''warning:''
           then \<lparr>l_text = orElse (dropWhile isWhiteSpace (drop 8 t)) ''Warning'',
                 l_type = ''warning''\<rparr>
         else if toLowerCase (take 6 t) = ''debug:''
           then \<lparr>l_text = orElse (dropWhile isWhiteSpace (drop 6 t)) ''Debug'',
                 l_type = ''debug''\<rparr>
         else if startsWith t ''[download]'' then \<lparr>l_text = t, l_type = ''progress''\<rparr>
         else if startsWith t ''[ffmpeg]'' then \<lparr>l_text = t, l_type = ''ffmpeg''\<rparr>
         else \<lparr>l_text = line, l_type = ''info''\<rparr>))
   \<and> interpretLogLine ''ERROR: disk full'' None = \<lparr>l_text = ''disk full'', l_type = ''error''\<rparr>
   \<and> interpretLogLine ''[download] 42.0%'' None
       = \<lparr>l_text = ''[download] 42.0%'', l_type = ''progress''\<rparr>
   \<and> interpretLogLine ''plain line'' None = \<lparr>l_text = ''plain line'', l_type = ''info''\<rparr>"
proof -
  have x1: "interpretLogLine ''ERROR: disk full'' None
              = \<lparr>l_text = ''disk full'', l_type = ''error''\<rparr>"
    by code_simp
  have x2: "interpretLogLine ''[download] 42.0%'' None
              = \<lparr>l_text = ''[download] 42.0%'', l_type = ''progress''\<rparr>"
    by code_simp
  have x3: "interpretLogLine ''plain line'' None = \<lparr>l_text = ''plain line'', l_type = ''info''\<rparr>"
    by code_simp
  from interpretLogLine_single_line x1 x2 x3 show ?thesis by blast
qed

theorem interpretLogLine_rules_witness:
  "interpretLogLine '' warning: low disk '' None = \<lparr>l_text = ''low disk'', l_type = ''warning''\<rparr>"
proof -
  have h: "\<not> list_ex isLineTerminator (trim '' warning: low disk '')" by code_simp
  have rules: "(let t = trim '' warning: low disk '' in
         if toLowerCase (take 6 t) = ''error:''
           then \<lparr>l_text = orElse (dropWhile isWhiteSpace (drop 6 t)) ''Error'',
                 l_type = ''error''\<rparr>
         else if toLowerCase (take 8 t) = ''warning:''
           then \<lparr>l_text = orElse (dropWhile isWhiteSpace (drop 8 t)) ''Warning'',
                 l_type = ''warning''\<rparr>
         else if toLowerCase (take 6 t) = ''debug:''
           then \<lparr>l_text = orElse (dropWhile isWhiteSpace (drop 6 t)) ''Debug'',
                 l_type = ''debug''\<rparr>
         else if startsWith t ''[download]'' then \<lparr>l_text = t, l_type = ''progress''\<rparr>
         else if startsWith t ''[ffmpeg]'' then \<lparr>l_text = t, l_type = ''ffmpeg''\<rparr>
         else \<lparr>l_text = '' warning: low disk '', l_type = ''info''\<rparr>)
       = \<lparr>l_text = ''low disk'', l_type = ''warning''\<rparr>"
    by code_simp
  show ?thesis
    by (rule trans [OF interpretLogLine_rules [of "'' warning: low disk ''", THEN conjunct1,
                         THEN mp, OF h] rules])
qed

text \<open>
  C8 as stated fails: the raw line \<^verbatim>\<open>"[download] 42.0% "\<close> has the \<^verbatim>\<open>[download]\<close>
  prefix, and the text returned is not the unchanged line (the trailing blank is gone).
\<close>

theorem interpretLogLine_text_counterexample:
  "startsWith ''[download] 42.0% '' ''[download]'' \<and>
   interpretLogLine ''[download] 42.0% '' None
     \<noteq> \<lparr>l_text = ''[download] 42.0% '', l_type = ''progress''\<rparr>"
  by code_simp

lemma shouldDisplayLogLine_lowered:
  "shouldDisplayLogLine line =
     (if trim line = [] then False
      else if startsWith (lowered line) ''debug:'' then False
      else if startsWith (lowered line) ''warning:''
        then \<not> list_ex (includesStr (lowered line)) NOISY_WARNING_SNIPPETS
      else if startsWith (lowered line) ''error:'' then True
      else if startsWith (lowered line) ''[download]'' \<or> startsWith (lowered line) ''[ffmpeg]''
              \<or> startsWith (lowered line) ''[merger]'' then True
      else list_ex (includesStr (lowered line)) IMPORTANT_LINE_SNIPPETS)"
  by (simp add: shouldDisplayLogLine_def lowered_def Let_def)

lemma fold_appendConsoleLine_console:
  "consoleDiv s = Some shown \<Longrightarrow>
   consoleDiv (fold (\<lambda>line. appendConsoleLine line ty) ls s)
     = Some (rev (map (\<lambda>line. interpretLogLine line ty) ls) @ shown)"
proof (induction ls arbitrary: s shown)
  case Nil
  then show ?case by simp
next
  case (Cons l ls)
  have "consoleDiv (appendConsoleLine l ty s) = Some (interpretLogLine l ty # shown)"
    using Cons.prems by (simp add: appendConsoleLine_def)
  from Cons.IH [OF this] show ?case by simp
qed

lemma renderLogLines_filtered:
  assumes "consoleDiv s \<noteq> None"
      and "filter (\<lambda>line. debugMode s \<or> shouldDisplayLogLine line) ls \<noteq> []"
  shows "consoleDiv (renderLogLines ls s)
           = Some (rev (map (\<lambda>line. interpretLogLine line None)
                          (filter (\<lambda>line. debugMode s \<or> shouldDisplayLogLine line) ls)))"
proof -
  let ?s1 = "s\<lparr>consoleDiv := Some [], lastLogs := ls\<rparr>"
  have c: "consoleDiv ?s1 = Some []" by simp
  show ?thesis
    using assms fold_appendConsoleLine_console [OF c]
    by (simp add: renderLogLines_def Let_def)
qed

text \<open>
  C9. \<open>shouldDisplayLogLine\<close> is the filter that \<open>renderLogLines\<close> applies while debug
  mode is off (\<open>renderLogLines_filtered\<close>). Its prefix and substring tests are made on
  the line as the filter reads it, trimmed and in lower case (\<open>lowered line\<close>). The filter is false for every empty or
  white-space-only line and for every \<^verbatim>\<open>debug:\<close> line; for a \<^verbatim>\<open>warning:\<close> line it is
  true exactly when the line holds none of the noisy snippets; it is true for every
  \<^verbatim>\<open>error:\<close> line and every line that starts with \<^verbatim>\<open>[download]\<close>, \<^verbatim>\<open>[ffmpeg]\<close> or
  \<^verbatim>\<open>[merger]\<close>; for any other line it is true exactly when the line holds one of the
  important snippets. The four examples of the claim hold.
\<close>

theorem shouldDisplayLogLine_filter:
  "((\<forall>c\<in>set line. isWhiteSpace c) \<longrightarrow> \<not> shouldDisplayLogLine line)
   \<and> (startsWith (lowered line) ''debug:'' \<longrightarrow> \<not> shouldDisplayLogLine line)
   \<and> (startsWith (lowered line) ''warning:'' \<longrightarrow>
        shouldDisplayLogLine line
          = (\<not> list_ex (\<lambda>snippet. includesStr (lowered line) snippet) NOISY_WARNING_SNIPPETS))
   \<and> (startsWith (lowered line) ''error:'' \<longrightarrow> shouldDisplayLogLine line)
   \<and> (startsWith (lowered line) ''[download]'' \<or> startsWith (lowered line) ''[ffmpeg]''
        \<or> startsWith (lowered line) ''[merger]'' \<longrightarrow> shouldDisplayLogLine line)
   \<and> (\<not> (\<forall>c\<in>set line. isWhiteSpace c)
        \<and> \<not> startsWith (lowered line) ''debug:'' \<and> \<not> startsWith (lowered line) ''warning:''
        \<and> \<not> startsWith (lowered line) ''error:'' \<and> \<not> startsWith (lowered line) ''[download]''
        \<and> \<not> startsWith (lowered line) ''[ffmpeg]'' \<and> \<not> startsWith (lowered line) ''[merger]''
        \<longrightarrow> shouldDisplayLogLine line
              = list_ex (\<lambda>snippet. includesStr (lowered line) snippet) IMPORTANT_LINE_SNIPPETS)
   \<and> \<not> shouldDisplayLogLine ''DEBUG: verbose trace''
   \<and> shouldDisplayLogLine ''ERROR: boom''
   \<and> \<not> shouldDisplayLogLine ''WARNING: [youtube] cookie notice''
   \<and> shouldDisplayLogLine ''WARNING: disk almost full''"
proof -
  have ws: "(\<forall>c\<in>set line. isWhiteSpace c) \<longleftrightarrow> trim line = []"
    by (simp add: trim_empty_iff)
  have e: "trim line = [] \<Longrightarrow> \<not> startsWith (lowered line) (c # p)" for c p
    by (simp add: lowered_empty startsWith_def)
  have c1: "(\<forall>c\<in>set line. isWhiteSpace c) \<longrightarrow> \<not> shouldDisplayLogLine line"
    by (simp add: ws shouldDisplayLogLine_lowered)
  have c2: "startsWith (lowered line) ''debug:'' \<longrightarrow> \<not> shouldDisplayLogLine line"
    by (simp add: shouldDisplayLogLine_lowered)
  have c3: "startsWith (lowered line) ''warning:'' \<longrightarrow>
        shouldDisplayLogLine line
          = (\<not> list_ex (\<lambda>snippet. includesStr (lowered line) snippet) NOISY_WARNING_SNIPPETS)"
    using e by (auto simp: shouldDisplayLogLine_lowered dest!: startsWith_Cons_hd)
  have c4: "startsWith (lowered line) ''error:'' \<longrightarrow> shouldDisplayLogLine line"
    using e by (auto simp: shouldDisplayLogLine_lowered dest!: startsWith_Cons_hd)
  have c5: "startsWith (lowered line) ''[download]'' \<or> startsWith (lowered line) ''[ffmpeg]''
        \<or> startsWith (lowered line) ''[merger]'' \<longrightarrow> shouldDisplayLogLine line"
    using e by (auto simp: shouldDisplayLogLine_lowered dest!: startsWith_Cons_hd)
  have c6: "\<not> (\<forall>c\<in>set line. isWhiteSpace c)
        \<and> \<not> startsWith (lowered line) ''debug:'' \<and> \<not> startsWith (lowered line) ''warning:''
        \<and> \<not> startsWith (lowered line) ''error:'' \<and> \<not> startsWith (lowered line) ''[download]''
        \<and> \<not> startsWith (lowered line) ''[ffmpeg]'' \<and> \<not> startsWith (lowered line) ''[merger]''
        \<longrightarrow> shouldDisplayLogLine line
              = list_ex (\<lambda>snippet. includesStr (lowered line) snippet) IMPORTANT_LINE_SNIPPETS"
    unfolding ws by (simp add: shouldDisplayLogLine_lowered)
  have x1: "\<not> shouldDisplayLogLine ''DEBUG: verbose trace''" by code_simp
  have x2: "shouldDisplayLogLine ''ERROR: boom''" by code_simp
  have x3: "\<not> shouldDisplayLogLine ''WARNING: [youtube] cookie notice''" by code_simp
  have x4: "shouldDisplayLogLine ''WARNING: disk almost full''" by code_simp
  from c1 c2 c3 c4 c5 c6 x1 x2 x3 x4 show ?thesis by blast
qed

theorem shouldDisplayLogLine_filter_witness:
  "\<not> shouldDisplayLogLine ''   ''
   \<and> \<not> shouldDisplayLogLine '' debug: created movie folder''
   \<and> shouldDisplayLogLine ''error: boom''
   \<and> shouldDisplayLogLine ''[Merger] Merging formats''
   \<and> \<not> shouldDisplayLogLine ''Warning: SABR streaming only''
   \<and> shouldDisplayLogLine ''Success! Video saved to /movies''"
proof -
  have a1: "\<forall>c\<in>set ''   ''. isWhiteSpace c" by code_simp
  have a2: "startsWith (lowered '' debug: created movie folder'') ''debug:''" by code_simp
  have a3: "startsWith (lowered ''error: boom'') ''error:''" by code_simp
  have a4: "startsWith (lowered ''[Merger] Merging formats'') ''[download]''
            \<or> startsWith (lowered ''[Merger] Merging formats'') ''[ffmpeg]''
            \<or> startsWith (lowered ''[Merger] Merging formats'') ''[merger]''" by code_simp
  have a5: "startsWith (lowered ''Warning: SABR streaming only'') ''warning:''" by code_simp
  have b5: "list_ex (\<lambda>snippet. includesStr (lowered ''Warning: SABR streaming only'') snippet)
              NOISY_WARNING_SNIPPETS" by code_simp
  have a6: "\<not> (\<forall>c\<in>set ''Success! Video saved to /movies''. isWhiteSpace c)
        \<and> \<not> startsWith (lowered ''Success! Video saved to /movies'') ''debug:''
        \<and> \<not> startsWith (lowered ''Success! Video saved to /movies'') ''warning:''
        \<and> \<not> startsWith (lowered ''Success! Video saved to /movies'') ''error:''
        \<and> \<not> startsWith (lowered ''Success! Video saved to /movies'') ''[download]''
        \<and> \<not> startsWith (lowered ''Success! Video saved to /movies'') ''[ffmpeg]''
        \<and> \<not> startsWith (lowered ''Success! Video saved to /movies'') ''[merger]''" by code_simp
  have b6: "list_ex (\<lambda>snippet. includesStr (lowered ''Success! Video saved to /movies'') snippet)
              IMPORTANT_LINE_SNIPPETS" by code_simp
  note r = shouldDisplayLogLine_filter
  have w1: "\<not> shouldDisplayLogLine ''   ''"
    by (rule r [THEN conjunct1, THEN mp, OF a1])
  have w2: "\<not> shouldDisplayLogLine '' debug: created movie folder''"
    by (rule r [THEN conjunct2, THEN conjunct1, THEN mp, OF a2])
  have w3: "shouldDisplayLogLine ''error: boom''"
    by (rule r [THEN conjunct2, THEN conjunct2, THEN conjunct2, THEN conjunct1, THEN mp, OF a3])
  have w4: "shouldDisplayLogLine ''[Merger] Merging formats''"
    by (rule r [THEN conjunct2, THEN conjunct2, THEN conjunct2, THEN conjunct2, THEN conjunct1,
                THEN mp, OF a4])
  have w5: "\<not> shouldDisplayLogLine ''Warning: SABR streaming only''"
    using r [THEN conjunct2, THEN conjunct2, THEN conjunct1, THEN mp, OF a5] b5
    by (simp only: not_not)
  have w6: "shouldDisplayLogLine ''Success! Video saved to /movies''"
    using r [THEN conjunct2, THEN conjunct2, THEN conjunct2, THEN conjunct2, THEN conjunct2,
             THEN conjunct1, THEN mp, OF a6] b6
    by (simp only:)
  from w1 w2 w3 w4 w5 w6 show ?thesis by (intro conjI)
qed

lemma interpretLogLine_muted:
  "interpretLogLine txt (Some ''muted'') = \<lparr>l_text = txt, l_type = ''muted''\<rparr>"
  by (simp add: interpretLogLine_def Let_def)

text \<open>
  C10. Where the page has a console: with debug mode off, rendering a non-empty log array
  all of whose lines the filter drops leaves exactly one line in the console, the muted
  notice that verbose output is hidden; rendering an empty array leaves exactly one line,
  the muted \<^verbatim>\<open>No output yet.\<close>
\<close>

theorem renderLogLines_placeholders:
  assumes "consoleDiv s \<noteq> None"
  shows "(\<not> debugMode s \<and> lines \<noteq> [] \<and> (\<forall>line\<in>set lines. \<not> shouldDisplayLogLine line) \<longrightarrow>
            consoleDiv (renderLogLines lines s) =
              Some [\<lparr>l_text = ''Verbose output hidden. Enable debug mode in Settings to view full yt-dlp logs.'',
                     l_type = ''muted''\<rparr>])
       \<and> consoleDiv (renderLogLines [] s)
           = Some [\<lparr>l_text = ''No output yet.'', l_type = ''muted''\<rparr>]"
  using assms
  by (auto simp: renderLogLines_def appendConsoleLine_def interpretLogLine_muted Let_def
        filter_empty_conv)

theorem renderLogLines_placeholders_witness:
  "consoleDiv (renderLogLines [''DEBUG: verbose trace'', ''[youtube] abc: Downloading webpage'']
                 initial_state) =
     Some [\<lparr>l_text = ''Verbose output hidden. Enable debug mode in Settings to view full yt-dlp logs.'',
            l_type = ''muted''\<rparr>]
   \<and> consoleDiv (renderLogLines [] initial_state)
       = Some [\<lparr>l_text = ''No output yet.'', l_type = ''muted''\<rparr>]"
proof -
  have h1: "consoleDiv initial_state \<noteq> None" by (simp add: initial_state_def)
  have h2: "\<not> debugMode initial_state" by (simp add: initial_state_def)
  have h3: "\<forall>line\<in>set [''DEBUG: verbose trace'', ''[youtube] abc: Downloading webpage''].
              \<not> shouldDisplayLogLine line"
    by code_simp
  show ?thesis
    using renderLogLines_placeholders
            [OF h1, of "[''DEBUG: verbose trace'', ''[youtube] abc: Downloading webpage'']"] h2 h3
    by simp
qed

section \<open>Properties of the job store\<close>

lemma pcDelete_frame [simp]:
  "downloads (snd (pcDelete j s)) = downloads s"
  "pollers (snd (pcDelete j s)) = pollers s"
  "intervals (snd (pcDelete j s)) = intervals s"
  "requests (snd (pcDelete j s)) = requests s"
  "nextTimer (snd (pcDelete j s)) = nextTimer s"
  by (simp_all add: pcDelete_def split: option.splits)

lemma pcDelete_undefined [simp]:
  "pendingCancellations s = None \<Longrightarrow> pcDelete j s = (Threw undefinedRead, s)"
  by (simp add: pcDelete_def)

lemma pcDelete_defined [simp]:
  "pendingCancellations s = Some pc \<Longrightarrow>
   pcDelete j s = (Done, s\<lparr>pendingCancellations := Some (pc - {j})\<rparr>)"
  by (simp add: pcDelete_def)

lemma stopJobPolling_frame [simp]:
  "downloads (stopJobPolling j s) = downloads s"
  "pendingCancellations (stopJobPolling j s) = pendingCancellations s"
  "requests (stopJobPolling j s) = requests s"
  "nextTimer (stopJobPolling j s) = nextTimer s"
  by (simp_all add: stopJobPolling_def split: option.splits)

lemma evictAll_downloads [simp]: "downloads (snd (evictAll es s)) = downloads s"
proof (induction es arbitrary: s)
  case Nil
  then show ?case by simp
next
  case (Cons e es)
  show ?case
  proof (cases "pendingCancellations s")
    case None
    then show ?thesis by (simp add: Let_def Cons)
  next
    case (Some pc)
    then show ?thesis by (simp add: Let_def Cons)
  qed
qed

lemma renderDownloads_downloads [simp]: "downloads (snd (renderDownloads s)) = downloads s"
  by (simp add: renderDownloads_def Let_def split: option.splits prod.splits)

lemma andThen_Done:
  "andThen f g s = (Done, s') \<longleftrightarrow> (\<exists>s1. f s = (Done, s1) \<and> g s1 = (Done, s'))"
  by (auto simp: andThen_def split: prod.splits outcome.splits)

lemma andThen_cases:
  obtains (first) err s1 where "f s = (Threw err, s1)" "andThen f g s = (Threw err, s1)"
        | (second) s1 where "f s = (Done, s1)" "andThen f g s = g s1"
  by (cases "f s"; cases "fst (f s)") (auto simp: andThen_def)

lemma upsertDownload_downloads:
  assumes "u_id upd \<noteq> []"
  shows "downloads (snd (upsertDownload upd now s)) = downloads (snd (upsertStore upd now s))
       \<or> downloads (snd (upsertDownload upd now s))
           = take MAX_DOWNLOAD_ENTRIES (newestFirst (downloads (snd (upsertStore upd now s))))"
proof -
  obtain e s1 where us: "upsertStore upd now s = (e, s1)" by (cases "upsertStore upd now s")
  have ev: "downloads (snd (evictOverflow (sortDownloads s2)))
              = take MAX_DOWNLOAD_ENTRIES (newestFirst (downloads s2))" for s2
    by (simp add: evictOverflow_def sortDownloads_def)
  show ?thesis
  proof (cases "clearSettled e s1" rule: prod.exhaust)
    case (Pair out s2)
    have d2: "downloads s2 = downloads s1"
      using Pair by (auto simp: clearSettled_def pcDelete_def split: if_splits option.splits)
    show ?thesis
    proof (cases out)
      case Done
      obtain out3 s3 where e3: "evictOverflow (sortDownloads s2) = (out3, s3)"
        by (cases "evictOverflow (sortDownloads s2)")
      have d3: "downloads s3 = take MAX_DOWNLOAD_ENTRIES (newestFirst (downloads s1))"
        using ev [of s2] e3 d2 by simp
      have "downloads (snd (upsertDownload upd now s)) = downloads s3"
        using assms us Pair Done e3
        by (cases out3) (simp_all add: upsertDownload_def andThen_def)
      then show ?thesis using d3 us by simp
    next
      case (Threw err)
      then show ?thesis using assms us Pair d2 by (simp add: upsertDownload_def andThen_def)
    qed
  qed
qed

lemma appendConsoleLine_frame [simp]:
  "downloads (appendConsoleLine txt ty s) = downloads s"
  "pollers (appendConsoleLine txt ty s) = pollers s"
  "intervals (appendConsoleLine txt ty s) = intervals s"
  "nextTimer (appendConsoleLine txt ty s) = nextTimer s"
  "requests (appendConsoleLine txt ty s) = requests s"
  "pendingCancellations (appendConsoleLine txt ty s) = pendingCancellations s"
  "debugMode (appendConsoleLine txt ty s) = debugMode s"
  "downloadsList (appendConsoleLine txt ty s) = downloadsList s"
  by (simp_all add: appendConsoleLine_def split: option.splits)

lemma fold_appendConsoleLine_frame [simp]:
  "downloads (fold (\<lambda>line. appendConsoleLine line ty) ls s) = downloads s"
  "pollers (fold (\<lambda>line. appendConsoleLine line ty) ls s) = pollers s"
  "intervals (fold (\<lambda>line. appendConsoleLine line ty) ls s) = intervals s"
  "nextTimer (fold (\<lambda>line. appendConsoleLine line ty) ls s) = nextTimer s"
  "requests (fold (\<lambda>line. appendConsoleLine line ty) ls s) = requests s"
  "pendingCancellations (fold (\<lambda>line. appendConsoleLine line ty) ls s) = pendingCancellations s"
  "downloadsList (fold (\<lambda>line. appendConsoleLine line ty) ls s) = downloadsList s"
  by (induction ls arbitrary: s) simp_all

lemma renderLogLines_frame [simp]:
  "downloads (renderLogLines ls s) = downloads s"
  "pollers (renderLogLines ls s) = pollers s"
  "intervals (renderLogLines ls s) = intervals s"
  "nextTimer (renderLogLines ls s) = nextTimer s"
  "requests (renderLogLines ls s) = requests s"
  "pendingCancellations (renderLogLines ls s) = pendingCancellations s"
  "downloadsList (renderLogLines ls s) = downloadsList s"
  by (simp_all add: renderLogLines_def Let_def)

lemma setDebugMode_frame [simp]:
  "downloads (setDebugMode v s) = downloads s"
  "pollers (setDebugMode v s) = pollers s"
  "intervals (setDebugMode v s) = intervals s"
  "nextTimer (setDebugMode v s) = nextTimer s"
  "requests (setDebugMode v s) = requests s"
  "pendingCancellations (setDebugMode v s) = pendingCancellations s"
  "downloadsList (setDebugMode v s) = downloadsList s"
  by (simp_all add: setDebugMode_def Let_def)

lemma renderDownloads_frame [simp]:
  "pollers (snd (renderDownloads s)) = pollers s"
  "intervals (snd (renderDownloads s)) = intervals s"
  "nextTimer (snd (renderDownloads s)) = nextTimer s"
  "requests (snd (renderDownloads s)) = requests s"
  "pendingCancellations (snd (renderDownloads s)) = pendingCancellations s"
  by (simp_all add: renderDownloads_def Let_def split: option.splits prod.splits)

lemma startJobPolling_frame [simp]:
  "downloads (startJobPolling j opts s) = downloads s"
  "pendingCancellations (startJobPolling j opts s) = pendingCancellations s"
  by (simp_all add: startJobPolling_def pollJob_request_def Let_def)

lemma evictAll_pending_undefined:
  "pendingCancellations s = None \<Longrightarrow> pendingCancellations (snd (evictAll es s)) = None"
  by (induction es arbitrary: s) (simp_all add: Let_def)

lemma andThen_keeps:
  assumes "\<And>s. P s \<Longrightarrow> P (snd (f s))" "\<And>s. P s \<Longrightarrow> P (snd (g s))" "P s"
  shows "P (snd (andThen f g s))"
proof (cases "f s")
  case (Pair out s1)
  have "P s1" using assms(1) [OF assms(3)] Pair by simp
  then show ?thesis using Pair assms(2) by (cases out) (simp_all add: andThen_def)
qed

lemma upsertStore_pending [simp]:
  "pendingCancellations (snd (upsertStore upd now s)) = pendingCancellations s"
  by (simp add: upsertStore_def Let_def split: option.splits)

lemma upsertDownload_pending_undefined:
  assumes "pendingCancellations s = None"
  shows "pendingCancellations (snd (upsertDownload upd now s)) = None"
proof (cases "u_id upd = []")
  case True
  then show ?thesis using assms by (simp add: upsertDownload_def)
next
  case False
  obtain e s1 where us: "upsertStore upd now s = (e, s1)" by (cases "upsertStore upd now s")
  have s1: "pendingCancellations s1 = None"
    using upsertStore_pending [of upd now s] us assms by simp
  have "pendingCancellations
          (snd (andThen (clearSettled e)
                  (andThen (\<lambda>s2. evictOverflow (sortDownloads s2)) renderDownloads) s1)) = None"
  proof (rule andThen_keeps [where P = "\<lambda>s. pendingCancellations s = None"])
    show "pendingCancellations (snd (clearSettled e s)) = None"
      if "pendingCancellations s = None" for s
      using that by (simp add: clearSettled_def)
    show "pendingCancellations
            (snd (andThen (\<lambda>s2. evictOverflow (sortDownloads s2)) renderDownloads s)) = None"
      if "pendingCancellations s = None" for s
    proof (rule andThen_keeps [where P = "\<lambda>s. pendingCancellations s = None"])
      show "pendingCancellations (snd (evictOverflow (sortDownloads s))) = None"
        if "pendingCancellations s = None" for s
        using that by (simp add: evictOverflow_def sortDownloads_def evictAll_pending_undefined)
      show "pendingCancellations (snd (renderDownloads s)) = None"
        if "pendingCancellations s = None" for s
        using that by simp
      show "pendingCancellations s = None" by (rule that)
    qed
    show "pendingCancellations s1 = None" by (rule s1)
  qed
  then show ?thesis using False us by (simp add: upsertDownload_def)
qed

lemma cancelJob_request_undefined:
  "pendingCancellations s = None \<Longrightarrow> j \<noteq> [] \<Longrightarrow> cancelJob_request j s = (Threw undefinedRead, s)"
  by (simp add: cancelJob_request_def pcHas_def)

lemma stop_pollers_None [simp]: "j \<noteq> [] \<Longrightarrow> pollers (stopJobPolling j s) j = None"
  by (simp add: stopJobPolling_def split: option.splits)

lemma pollJob_catch_stops:
  "j \<noteq> [] \<Longrightarrow>
   pollers (snd (pcDelete j (stopJobPolling j (appendConsoleLine txt ty s)))) j = None"
  by simp

lemma pollJob_final_status_stops:
  assumes j: "jobId \<noteq> []" and final: "isFinalStatus (j_status job)"
      and job: "d_job data = Some job"
  shows "pollers (snd (pollJob_response jobId options (Response True status (Json data)) now s))
           jobId = None"
proof -
  let ?resp = "Response True status (Json data)"
  obtain out s1 where t: "pollJob_try jobId options ?resp now s = (out, s1)"
    by (cases "pollJob_try jobId options ?resp now s")
  show ?thesis
  proof (cases out)
    case (Threw err)
    then show ?thesis using t j by (simp add: pollJob_response_def)
  next
    case Done
    have "pollers s1 jobId = None"
      using t [unfolded Done] j final job
      by (auto simp: pollJob_try_def andThen_Done Let_def split: option.splits)
    then show ?thesis using t Done j by (simp add: pollJob_response_def)
  qed
qed

lemma pollJob_response_pending_undefined:
  assumes "pendingCancellations s = None"
  shows "pendingCancellations (snd (pollJob_response jobId options resp now s)) = None"
proof -
  have tr: "pendingCancellations (snd (pollJob_try jobId options resp now s)) = None"
  proof (cases resp)
    case (Rejected msg)
    then show ?thesis using assms by (simp add: pollJob_try_def)
  next
    case (Response ok status body)
    show ?thesis
    proof (cases "ok")
      case False
      then show ?thesis using assms Response by (simp add: pollJob_try_def)
    next
      case True
      show ?thesis
      proof (cases body)
        case (NotJson msg)
        then show ?thesis using assms Response True by (simp add: pollJob_try_def)
      next
        case (Json data)
        let ?s1 = "case d_debug_mode data of Some v \<Rightarrow> setDebugMode v s | None \<Rightarrow> s"
        have s1: "pendingCancellations ?s1 = None" using assms by (simp split: option.splits)
        show ?thesis
        proof (cases "d_job data")
          case None
          have "pendingCancellations (snd (andThen f (\<lambda>s5. pcDelete jobId (stopJobPolling jobId s5)) s0)) = None"
            if "pendingCancellations s0 = None"
               "\<And>s. pendingCancellations s = None \<Longrightarrow> pendingCancellations (snd (f s)) = None"
            for f s0
            using that by (intro andThen_keeps [where P = "\<lambda>s. pendingCancellations s = None"]) simp_all
          then show ?thesis
            using Response True Json None s1
            by (simp add: pollJob_try_def Let_def)
        next
          case (Some job)
          have "pendingCancellations (snd (andThen
              (\<lambda>s2. case normaliseJob job now of
                       Some entry \<Rightarrow> upsertDownload entry now s2
                     | None \<Rightarrow> (Done, s2))
              (\<lambda>s3. let show = (showConsole options \<or> activeConsoleJobId s3 = Some jobId);
                         s4 = (case j_logs job of
                                 Some logs \<Rightarrow> if show then renderLogLines logs s3 else s3
                               | None \<Rightarrow> s3)
                     in if isFinalStatus (j_status job)
                        then andThen (pcDelete jobId) (\<lambda>s5. (Done, stopJobPolling jobId s5)) s4
                        else (Done, s4)) ?s1)) = None"
          proof (rule andThen_keeps [where P = "\<lambda>s. pendingCancellations s = None"])
            show "pendingCancellations s = None \<Longrightarrow>
                  pendingCancellations (snd (case normaliseJob job now of
                       Some entry \<Rightarrow> upsertDownload entry now s
                     | None \<Rightarrow> (Done, s))) = None" for s
              by (simp add: upsertDownload_pending_undefined split: option.splits)
            show "pendingCancellations s = None \<Longrightarrow>
                  pendingCancellations (snd (let show = (showConsole options \<or> activeConsoleJobId s = Some jobId);
                         s4 = (case j_logs job of
                                 Some logs \<Rightarrow> if show then renderLogLines logs s else s
                               | None \<Rightarrow> s)
                     in if isFinalStatus (j_status job)
                        then andThen (pcDelete jobId) (\<lambda>s5. (Done, stopJobPolling jobId s5)) s4
                        else (Done, s4))) = None" for s
              by (simp add: Let_def andThen_def split: option.splits)
            show "pendingCancellations ?s1 = None" by (rule s1)
          qed
          then show ?thesis using Response True Json Some by (simp add: pollJob_try_def)
        qed
      qed
    qed
  qed
  obtain out s1 where t: "pollJob_try jobId options resp now s = (out, s1)"
    by (cases "pollJob_try jobId options resp now s")
  then have "pendingCancellations s1 = None" using tr by simp
  then show ?thesis using t assms by (cases out) (simp_all add: pollJob_response_def)
qed

lemma findIndex_Some:
  "findIndex P xs = Some i \<Longrightarrow> i < length xs \<and> P (xs ! i) \<and> find P xs = Some (xs ! i)"
proof (induction xs arbitrary: i)
  case Nil
  then show ?case by simp
next
  case (Cons x xs)
  then show ?case by (auto split: if_splits)
qed

lemma findIndex_None: "findIndex P xs = None \<longleftrightarrow> find P xs = None"
  by (induction xs) auto

lemma find_distinct_id:
  "distinct (map e_id xs) \<Longrightarrow> e \<in> set xs \<Longrightarrow> find (\<lambda>item. e_id item = e_id e) xs = Some e"
proof (induction xs)
  case Nil
  then show ?case by simp
next
  case (Cons x xs)
  then show ?case by (auto simp: image_iff)
qed

lemma upsertStore_merge:
  assumes "lookupDownload j s = Some e" "u_id upd = j"
  shows "\<exists>i. i < length (downloads s) \<and> downloads s ! i = e \<and> e_id e = j
           \<and> upsertStore upd now s
               = (mergeEntry e upd now,
                  s\<lparr>downloads := (downloads s)[i := mergeEntry e upd now]\<rparr>)"
proof -
  from assms(1) obtain i where i: "findIndex (\<lambda>item. e_id item = j) (downloads s) = Some i"
    by (cases "findIndex (\<lambda>item. e_id item = j) (downloads s)")
       (simp_all add: lookupDownload_def findIndex_None)
  from findIndex_Some [OF i] assms(1)
  have "i < length (downloads s)" "downloads s ! i = e" "e_id e = j"
    by (auto simp: lookupDownload_def)
  then show ?thesis using i assms(2) by (auto simp: upsertStore_def Let_def)
qed

lemma map_id_update:
  "i < length ds \<Longrightarrow> e_id m = e_id (ds ! i) \<Longrightarrow> map e_id (ds[i := m]) = map e_id ds"
  by (simp add: map_update list_update_same_conv)

lemma upsertStore_ids:
  assumes "distinct (map e_id (downloads s))"
  shows "distinct (map e_id (downloads (snd (upsertStore upd now s))))"
proof (cases "findIndex (\<lambda>item. e_id item = u_id upd) (downloads s)")
  case None
  then have "find (\<lambda>item. e_id item = u_id upd) (downloads s) = None"
    by (simp add: findIndex_None)
  then have "u_id upd \<notin> e_id ` set (downloads s)" by (auto simp: find_None_iff)
  then show ?thesis
    using assms None by (simp add: upsertStore_def Let_def newEntry_def)
next
  case (Some i)
  from findIndex_Some [OF Some] have i: "i < length (downloads s)" "e_id (downloads s ! i) = u_id upd"
    by simp_all
  have "map e_id ((downloads s)[i := mergeEntry (downloads s ! i) upd now]) = map e_id (downloads s)"
    using i by (intro map_id_update) (simp_all add: mergeEntry_def)
  then show ?thesis using assms Some by (simp add: upsertStore_def Let_def)
qed

lemma upsertDownload_ids:
  assumes "distinct (map e_id (downloads s))"
  shows "distinct (map e_id (downloads (snd (upsertDownload upd now s))))"
proof (cases "u_id upd = []")
  case True
  then show ?thesis using assms by (simp add: upsertDownload_def)
next
  case False
  have d: "distinct (map e_id (downloads (snd (upsertStore upd now s))))"
    using upsertStore_ids [OF assms] by simp
  have "distinct (map e_id (take MAX_DOWNLOAD_ENTRIES
                (newestFirst (downloads (snd (upsertStore upd now s))))))"
  proof -
    let ?ds = "downloads (snd (upsertStore upd now s))"
    have "set (take MAX_DOWNLOAD_ENTRIES (newestFirst ?ds)) \<subseteq> set ?ds"
      using set_take_subset [of MAX_DOWNLOAD_ENTRIES "newestFirst ?ds"] by simp
    then have "inj_on e_id (set (take MAX_DOWNLOAD_ENTRIES (newestFirst ?ds)))"
      using d by (auto simp: distinct_map intro: inj_on_subset)
    moreover have "distinct (take MAX_DOWNLOAD_ENTRIES (newestFirst ?ds))"
      using d by (simp add: distinct_map)
    ultimately show ?thesis by (simp add: distinct_map)
  qed
  then show ?thesis
    using upsertDownload_downloads [OF False, of now s] d by (auto simp:)
qed

lemma upsertDownload_merge_kept:
  assumes ok: "distinct (map e_id (downloads s))" and e: "lookupDownload j s = Some e" and j: "j \<noteq> []"
      and u: "u_id upd = j"
  shows "lookupDownload j (snd (upsertDownload upd now s)) = None
       \<or> lookupDownload j (snd (upsertDownload upd now s)) = Some (mergeEntry e upd now)"
    and "length (downloads s) \<le> MAX_DOWNLOAD_ENTRIES \<Longrightarrow>
         lookupDownload j (snd (upsertDownload upd now s)) = Some (mergeEntry e upd now)
         \<and> length (downloads (snd (upsertDownload upd now s))) \<le> MAX_DOWNLOAD_ENTRIES"
proof -
  let ?m = "mergeEntry e upd now"
  from upsertStore_merge [OF e u, of now] obtain i where
    i: "i < length (downloads s)" "downloads s ! i = e" "e_id e = j"
    and us: "upsertStore upd now s = (?m, s\<lparr>downloads := (downloads s)[i := ?m]\<rparr>)"
    by blast
  let ?ds = "(downloads s)[i := ?m]"
  let ?s' = "snd (upsertDownload upd now s)"
  have mid: "e_id ?m = j" by (simp add: mergeEntry_def u)
  have ids: "map e_id ?ds = map e_id (downloads s)"
    using i mid by (simp add: map_id_update)
  have dist: "distinct (map e_id ?ds)" using ok ids by simp
  have mem: "?m \<in> set ?ds" using i by (simp add: set_update_memI)
  from upsertDownload_downloads [of upd now s] j u us
  have alt: "downloads ?s' = ?ds \<or> downloads ?s' = take MAX_DOWNLOAD_ENTRIES (newestFirst ?ds)"
    by simp
  have "set (take MAX_DOWNLOAD_ENTRIES (newestFirst ?ds)) \<subseteq> set ?ds"
    using set_take_subset [of MAX_DOWNLOAD_ENTRIES "newestFirst ?ds"] by simp
  then have sub: "set (downloads ?s') \<subseteq> set ?ds" using alt by auto
  have dist': "distinct (map e_id (downloads ?s'))"
    using upsertDownload_ids [OF ok, of upd now] by simp
  have only: "x = ?m" if "x \<in> set ?ds" "e_id x = j" for x
    using dist that mem mid by (auto simp: distinct_map inj_on_def)
  show "lookupDownload j ?s' = None \<or> lookupDownload j ?s' = Some ?m"
  proof (cases "lookupDownload j ?s'")
    case None
    then show ?thesis by simp
  next
    case (Some x)
    then have "x \<in> set (downloads ?s')" "e_id x = j"
      by (auto simp: lookupDownload_def find_Some_iff)
    then have "x = ?m" using only sub by blast
    then show ?thesis using Some by simp
  qed
  show "lookupDownload j ?s' = Some ?m \<and> length (downloads ?s') \<le> MAX_DOWNLOAD_ENTRIES"
    if len: "length (downloads s) \<le> MAX_DOWNLOAD_ENTRIES"
  proof -
    have "take MAX_DOWNLOAD_ENTRIES (newestFirst ?ds) = newestFirst ?ds" using len by simp
    then have alt2: "downloads ?s' = ?ds \<or> downloads ?s' = newestFirst ?ds" using alt by simp
    have mem': "?m \<in> set (downloads ?s')" using alt2 mem by auto
    have "find (\<lambda>item. e_id item = e_id ?m) (downloads ?s') = Some ?m"
      by (rule find_distinct_id [OF dist' mem'])
    moreover have "length (downloads ?s') = length (downloads s)" using alt2 by auto
    ultimately show ?thesis using mid len by (simp add: lookupDownload_def)
  qed
qed

lemma startedAt_mergeEntry:
  "e_startedAt (mergeEntry e upd now)
     = (case u_startedAt upd of Some t \<Rightarrow> t | None \<Rightarrow> e_startedAt e)"
  by (simp add: mergeEntry_def)

lemma upsertAll_held_startedAt:
  assumes "distinct (map e_id (downloads s))" "lookupDownload j s = Some e" "j \<noteq> []"
      and "\<forall>call\<in>set calls. u_id (fst call) = j" and "held j calls s"
  shows "map_option e_startedAt (lookupDownload j (upsertAll calls s))
           = Some (lastStartedAt (e_startedAt e) calls)"
  using assms
proof (induction calls arbitrary: s e)
  case Nil
  then show ?case by (simp add: upsertAll_def lastStartedAt_def)
next
  case (Cons call calls)
  obtain upd now where call: "call = (upd, now)" by (cases call)
  let ?s1 = "snd (upsertDownload upd now s)"
  have u: "u_id upd = j" using Cons.prems(4) call by simp
  have h1: "held j calls ?s1" using Cons.prems(5) call by simp
  then have "lookupDownload j ?s1 \<noteq> None" by (cases calls) simp_all
  with upsertDownload_merge_kept(1) [OF Cons.prems(1) Cons.prems(2) Cons.prems(3) u, of now]
  have e1: "lookupDownload j ?s1 = Some (mergeEntry e upd now)" by simp
  have ok1: "distinct (map e_id (downloads ?s1))" by (rule upsertDownload_ids [OF Cons.prems(1)])
  have rest: "\<forall>c\<in>set calls. u_id (fst c) = j" using Cons.prems(4) by simp
  from Cons.IH [OF ok1 e1 Cons.prems(3) rest h1]
  have "map_option e_startedAt (lookupDownload j (upsertAll calls ?s1))
          = Some (lastStartedAt (e_startedAt (mergeEntry e upd now)) calls)" .
  then show ?case
    by (simp add: call upsertAll_def lastStartedAt_def startedAt_mergeEntry)
qed

lemma held_within_capacity:
  assumes "distinct (map e_id (downloads s))" "length (downloads s) \<le> MAX_DOWNLOAD_ENTRIES"
      and "lookupDownload j s = Some e" "j \<noteq> []"
      and "\<forall>call\<in>set calls. u_id (fst call) = j"
  shows "held j calls s"
  using assms
proof (induction calls arbitrary: s e)
  case Nil
  then show ?case by simp
next
  case (Cons call calls)
  obtain upd now where call: "call = (upd, now)" by (cases call)
  let ?s1 = "snd (upsertDownload upd now s)"
  have u: "u_id upd = j" using Cons.prems(5) call by simp
  from upsertDownload_merge_kept(2) [OF Cons.prems(1) Cons.prems(3) Cons.prems(4) u Cons.prems(2), of now]
  have e1: "lookupDownload j ?s1 = Some (mergeEntry e upd now)"
    and l1: "length (downloads ?s1) \<le> MAX_DOWNLOAD_ENTRIES" by simp_all
  have ok1: "distinct (map e_id (downloads ?s1))" by (rule upsertDownload_ids [OF Cons.prems(1)])
  have rest: "\<forall>c\<in>set calls. u_id (fst c) = j" using Cons.prems(5) by simp
  from Cons.IH [OF ok1 l1 e1 Cons.prems(4) rest] Cons.prems(3)
  show ?case by (simp add: call)
qed


lemma lastStartedAt_none:
  "\<forall>call\<in>set calls. u_startedAt (fst call) = None \<Longrightarrow> lastStartedAt t calls = t"
  by (induction calls arbitrary: t) (auto simp: lastStartedAt_def)

lemma find_update_first:
  "findIndex P xs = Some i \<Longrightarrow> P m \<Longrightarrow> find P (xs[i := m]) = Some m"
proof (induction xs arbitrary: i)
  case Nil
  then show ?case by simp
next
  case (Cons x xs)
  then show ?case by (cases i) (auto split: if_splits)
qed

lemma static_merge_step:
  assumes "hasDownloadsList t" "find (\<lambda>item. e_id item = j) (downloadEntries t) = Some e"
      and "j \<noteq> []" "u_id upd = j"
  shows "hasDownloadsList (static_upsertDownload upd atEnd now t)
       \<and> find (\<lambda>item. e_id item = j) (downloadEntries (static_upsertDownload upd atEnd now t))
           = Some ((mergeEntry e upd now)\<lparr>e_startedAt := e_startedAt e\<rparr>)"
proof -
  from assms(2) obtain i where i: "findIndex (\<lambda>item. e_id item = j) (downloadEntries t) = Some i"
    by (cases "findIndex (\<lambda>item. e_id item = j) (downloadEntries t)")
       (simp_all add: findIndex_None)
  from findIndex_Some [OF i] assms(2) have ei: "downloadEntries t ! i = e" by simp
  let ?m = "(mergeEntry e upd now)\<lparr>e_startedAt := e_startedAt e\<rparr>"
  have "e_id ?m = j" using assms(4) by (simp add: mergeEntry_def)
  then have "find (\<lambda>item. e_id item = j) ((downloadEntries t)[i := ?m]) = Some ?m"
    using find_update_first [OF i, of ?m] by simp
  then show ?thesis
    using assms i ei by (simp add: static_upsertDownload_def Let_def)
qed

lemma static_upsertAll_startedAt:
  assumes "hasDownloadsList t" "find (\<lambda>item. e_id item = j) (downloadEntries t) = Some e"
      and "j \<noteq> []" "\<forall>call\<in>set calls. u_id (fst call) = j"
  shows "map_option e_startedAt
           (find (\<lambda>item. e_id item = j) (downloadEntries (static_upsertAll atEnd calls t)))
         = Some (e_startedAt e)"
  using assms
proof (induction calls arbitrary: t e)
  case Nil
  then show ?case by (simp add: static_upsertAll_def)
next
  case (Cons call calls)
  obtain upd now where call: "call = (upd, now)" by (cases call)
  have u: "u_id upd = j" using Cons.prems(4) call by simp
  let ?t1 = "static_upsertDownload upd atEnd now t"
  let ?m = "(mergeEntry e upd now)\<lparr>e_startedAt := e_startedAt e\<rparr>"
  from static_merge_step [OF Cons.prems(1) Cons.prems(2) Cons.prems(3) u, of atEnd now]
  have h1: "hasDownloadsList ?t1"
    and e1: "find (\<lambda>item. e_id item = j) (downloadEntries ?t1) = Some ?m"
    by simp_all
  have rest: "\<forall>c\<in>set calls. u_id (fst c) = j" using Cons.prems(4) by simp
  from Cons.IH [OF h1 e1 Cons.prems(3) rest]
  show ?case by (simp add: call static_upsertAll_def)
qed

text \<open>
  Above its capacity the store can drop the very record a call merges. After the nine
  upserts of \<open>nineFinished\<close> the store holds nine records; a merge for the oldest of
  them with status processing skips the \<^verbatim>\<open>delete\<close> of line 1606, the sort puts the
  record last and the splice removes it before the eviction loop throws.
\<close>

lemma upsertDownload_drops_record:
  "length (downloads (upsertAll nineFinished initial_state)) = 9
   \<and> map_option e_startedAt (lookupDownload ''job1'' (upsertAll nineFinished initial_state))
       = Some 1
   \<and> fst (upsertDownload
            (\<lparr>u_id = ''job1'', u_label = None, u_subtitle = None,
              u_status = Some ''processing'', u_progress = None, u_metadata = None,
              u_message = None, u_startedAt = None, u_updatedAt = None\<rparr>) 20
            (upsertAll nineFinished initial_state)) = Threw undefinedRead
   \<and> map e_id (downloads (snd (upsertDownload
            (\<lparr>u_id = ''job1'', u_label = None, u_subtitle = None,
              u_status = Some ''processing'', u_progress = None, u_metadata = None,
              u_message = None, u_startedAt = None, u_updatedAt = None\<rparr>) 20
            (upsertAll nineFinished initial_state))))
       = [''job9'', ''job8'', ''job7'', ''job6'', ''job5'', ''job4'', ''job3'', ''job2'']
   \<and> lookupDownload ''job1'' (snd (upsertDownload
            (\<lparr>u_id = ''job1'', u_label = None, u_subtitle = None,
              u_status = Some ''processing'', u_progress = None, u_metadata = None,
              u_message = None, u_startedAt = None, u_updatedAt = None\<rparr>) 20
            (upsertAll nineFinished initial_state))) = None"
  by code_simp

text \<open>
  C1, as the code has it. Take a store that holds every id once and holds a record for
  the id, and \<open>upsertDownload\<close> calls that all carry this id. \<open>upsertDownload\<close> keeps
  every id once. In part_003 the merge writes \<^verbatim>\<open>update.startedAt || existing.startedAt\<close>:
  after a call the record is the merged one, with the \<^verbatim>\<open>startedAt\<close> the call carries
  or the stored one if it carries none, unless the splice has dropped the record. A
  store that starts within its capacity holds the record before and after every call
  of the sequence; whenever it does, the record's \<^verbatim>\<open>startedAt\<close> after the sequence
  is the one carried by the last call that carries one, and it is the stored
  \<^verbatim>\<open>startedAt\<close> of the first insert if no later call carries one (whether or not a
  call ends in an exception). In static/script.js the merge writes
  \<^verbatim>\<open>existing.startedAt\<close>: there the stored value is kept by every later call.
\<close>

theorem upsertDownload_startedAt:
  "(distinct (map e_id (downloads s)) \<longrightarrow>
      distinct (map e_id (downloads (snd (upsertDownload upd now s)))))
   \<and> (distinct (map e_id (downloads s)) \<and> lookupDownload j s = Some e \<and> j \<noteq> []
        \<and> u_id upd = j \<longrightarrow>
        (lookupDownload j (snd (upsertDownload upd now s)) = None
         \<or> lookupDownload j (snd (upsertDownload upd now s)) = Some (mergeEntry e upd now))
        \<and> e_startedAt (mergeEntry e upd now)
            = (case u_startedAt upd of Some t' \<Rightarrow> t' | None \<Rightarrow> e_startedAt e))
   \<and> (distinct (map e_id (downloads s)) \<and> lookupDownload j s = Some e \<and> j \<noteq> []
        \<and> (\<forall>call\<in>set calls. u_id (fst call) = j) \<longrightarrow>
        (length (downloads s) \<le> MAX_DOWNLOAD_ENTRIES \<longrightarrow> held j calls s)
        \<and> (held j calls s \<longrightarrow>
             map_option e_startedAt (lookupDownload j (upsertAll calls s))
               = Some (lastStartedAt (e_startedAt e) calls)
             \<and> ((\<forall>call\<in>set calls. u_startedAt (fst call) = None) \<longrightarrow>
                  map_option e_startedAt (lookupDownload j (upsertAll calls s))
                    = Some (e_startedAt e))))
   \<and> (hasDownloadsList t \<and> find (\<lambda>item. e_id item = j) (downloadEntries t) = Some e' \<and> j \<noteq> []
        \<and> (\<forall>call\<in>set calls. u_id (fst call) = j)
      \<longrightarrow> map_option e_startedAt
            (find (\<lambda>item. e_id item = j) (downloadEntries (static_upsertAll atEnd calls t)))
          = Some (e_startedAt e'))"
proof (intro conjI impI)
  show "distinct (map e_id (downloads (snd (upsertDownload upd now s))))"
    if "distinct (map e_id (downloads s))"
    using that by (rule upsertDownload_ids)
  show "lookupDownload j (snd (upsertDownload upd now s)) = None
         \<or> lookupDownload j (snd (upsertDownload upd now s)) = Some (mergeEntry e upd now)"
    if "distinct (map e_id (downloads s)) \<and> lookupDownload j s = Some e \<and> j \<noteq> [] \<and> u_id upd = j"
  proof -
    from that have a: "distinct (map e_id (downloads s))" "lookupDownload j s = Some e"
      "j \<noteq> []" "u_id upd = j" by simp_all
    show ?thesis by (rule upsertDownload_merge_kept(1) [OF a])
  qed
  show "e_startedAt (mergeEntry e upd now)
          = (case u_startedAt upd of Some t' \<Rightarrow> t' | None \<Rightarrow> e_startedAt e)"
    by (rule startedAt_mergeEntry)
  show "held j calls s"
    if "distinct (map e_id (downloads s)) \<and> lookupDownload j s = Some e \<and> j \<noteq> []
          \<and> (\<forall>call\<in>set calls. u_id (fst call) = j)"
       "length (downloads s) \<le> MAX_DOWNLOAD_ENTRIES"
  proof -
    from that have a: "distinct (map e_id (downloads s))" "lookupDownload j s = Some e"
      "j \<noteq> []" "\<forall>call\<in>set calls. u_id (fst call) = j" by simp_all
    show ?thesis by (rule held_within_capacity [OF a(1) that(2) a(2) a(3) a(4)])
  qed
  show "map_option e_startedAt (lookupDownload j (upsertAll calls s))
               = Some (lastStartedAt (e_startedAt e) calls)"
    if "distinct (map e_id (downloads s)) \<and> lookupDownload j s = Some e \<and> j \<noteq> []
          \<and> (\<forall>call\<in>set calls. u_id (fst call) = j)"
       "held j calls s"
  proof -
    from that have a: "distinct (map e_id (downloads s))" "lookupDownload j s = Some e"
      "j \<noteq> []" "\<forall>call\<in>set calls. u_id (fst call) = j" by simp_all
    show ?thesis by (rule upsertAll_held_startedAt [OF a that(2)])
  qed
  show "map_option e_startedAt (lookupDownload j (upsertAll calls s)) = Some (e_startedAt e)"
    if "distinct (map e_id (downloads s)) \<and> lookupDownload j s = Some e \<and> j \<noteq> []
          \<and> (\<forall>call\<in>set calls. u_id (fst call) = j)"
       "held j calls s" "\<forall>call\<in>set calls. u_startedAt (fst call) = None"
  proof -
    from that have a: "distinct (map e_id (downloads s))" "lookupDownload j s = Some e"
      "j \<noteq> []" "\<forall>call\<in>set calls. u_id (fst call) = j" by simp_all
    show ?thesis
      using upsertAll_held_startedAt [OF a that(2)] lastStartedAt_none [OF that(3)] by simp
  qed
  show "map_option e_startedAt
            (find (\<lambda>item. e_id item = j) (downloadEntries (static_upsertAll atEnd calls t)))
          = Some (e_startedAt e')"
    if "hasDownloadsList t \<and> find (\<lambda>item. e_id item = j) (downloadEntries t) = Some e' \<and> j \<noteq> []
        \<and> (\<forall>call\<in>set calls. u_id (fst call) = j)"
  proof -
    from that have a: "hasDownloadsList t"
      "find (\<lambda>item. e_id item = j) (downloadEntries t) = Some e'"
      "j \<noteq> []" "\<forall>call\<in>set calls. u_id (fst call) = j" by simp_all
    show ?thesis by (rule static_upsertAll_startedAt [OF a])
  qed
qed

theorem upsertDownload_startedAt_witness:
  "held ''j1'' (drop 1 queuedThenStarted) (upsertAll (take 1 queuedThenStarted) initial_state)
   \<and> map_option e_startedAt
     (lookupDownload ''j1'' (upsertAll (drop 1 queuedThenStarted)
        (upsertAll (take 1 queuedThenStarted) initial_state))) = Some 2000
   \<and> map_option e_startedAt
     (lookupDownload ''j1''
        (upsertAll [(\<lparr>u_id = ''j1'', u_label = None, u_subtitle = None,
                      u_status = Some ''processing'', u_progress = Some 40, u_metadata = None,
                      u_message = None, u_startedAt = None, u_updatedAt = None\<rparr>, 2500)]
           (upsertAll (take 1 queuedThenStarted) initial_state))) = Some 1000
   \<and> distinct (map e_id (downloads (snd (upsertDownload queuedJob 9
        (upsertAll (take 1 queuedThenStarted) initial_state)))))
   \<and> (lookupDownload ''j1'' (snd (upsertDownload queuedJob 9
           (upsertAll (take 1 queuedThenStarted) initial_state))) = None
        \<or> map_option e_startedAt (lookupDownload ''j1'' (snd (upsertDownload queuedJob 9
             (upsertAll (take 1 queuedThenStarted) initial_state)))) = Some 5)
   \<and> map_option e_startedAt
     (find (\<lambda>item. e_id item = ''j1'')
        (downloadEntries (static_upsertAll False (drop 1 queuedThenStarted)
           (static_upsertAll False (take 1 queuedThenStarted) initial_static)))) = Some 1000"
proof -
  let ?s = "upsertAll (take 1 queuedThenStarted) initial_state"
  let ?t = "static_upsertAll False (take 1 queuedThenStarted) initial_static"
  let ?e = "newEntry (fst (hd queuedThenStarted)) 1500"
  let ?u = "\<lparr>u_id = ''j1'', u_label = None, u_subtitle = None, u_status = Some ''processing'',
             u_progress = Some 40, u_metadata = None, u_message = None,
             u_startedAt = None, u_updatedAt = None\<rparr>"
  have d: "distinct (map e_id (downloads ?s))" by code_simp
  have len: "length (downloads ?s) \<le> MAX_DOWNLOAD_ENTRIES" by code_simp
  have e: "lookupDownload ''j1'' ?s = Some ?e" by code_simp
  have j: "''j1'' \<noteq> []" by simp
  have c1: "\<forall>call\<in>set (drop 1 queuedThenStarted). u_id (fst call) = ''j1''" by code_simp
  have c2: "\<forall>call\<in>set [(?u, 2500::int)]. u_id (fst call) = ''j1''" by simp
  have n2: "\<forall>call\<in>set [(?u, 2500::int)]. u_startedAt (fst call) = None" by simp
  have l1: "lastStartedAt (e_startedAt ?e) (drop 1 queuedThenStarted) = 2000" by code_simp
  have st: "e_startedAt ?e = 1000" by code_simp
  have h: "hasDownloadsList ?t" by code_simp
  have f: "find (\<lambda>item. e_id item = ''j1'') (downloadEntries ?t) = Some ?e" by code_simp
  note seq1 = upsertDownload_startedAt [of ?s _ _ "''j1''" ?e "drop 1 queuedThenStarted",
                THEN conjunct2, THEN conjunct2, THEN conjunct1, rule_format]
  note seq2 = upsertDownload_startedAt [of ?s _ _ "''j1''" ?e "[(?u, 2500)]",
                THEN conjunct2, THEN conjunct2, THEN conjunct1, rule_format]
  have pre1: "distinct (map e_id (downloads ?s)) \<and> lookupDownload ''j1'' ?s = Some ?e \<and> ''j1'' \<noteq> []
          \<and> (\<forall>call\<in>set (drop 1 queuedThenStarted). u_id (fst call) = ''j1'')"
    using d e c1 by simp
  have pre2: "distinct (map e_id (downloads ?s)) \<and> lookupDownload ''j1'' ?s = Some ?e \<and> ''j1'' \<noteq> []
          \<and> (\<forall>call\<in>set [(?u, 2500::int)]. u_id (fst call) = ''j1'')"
    using d e by simp
  have h1: "held ''j1'' (drop 1 queuedThenStarted) ?s"
    using seq1 [OF pre1, THEN conjunct1] len by blast
  have h2: "held ''j1'' [(?u, 2500)] ?s"
    using seq2 [OF pre2, THEN conjunct1] len by blast
  have r1: "map_option e_startedAt (lookupDownload ''j1'' (upsertAll (drop 1 queuedThenStarted) ?s))
              = Some 2000"
    using seq1 [OF pre1, THEN conjunct2, THEN mp, OF h1, THEN conjunct1] l1 by simp
  have r2: "map_option e_startedAt (lookupDownload ''j1'' (upsertAll [(?u, 2500)] ?s)) = Some 1000"
    using seq2 [OF pre2, THEN conjunct2, THEN mp, OF h2, THEN conjunct2, THEN mp, OF n2] st
    by simp
  have r4: "distinct (map e_id (downloads (snd (upsertDownload queuedJob 9 ?s))))"
    by (rule upsertDownload_startedAt [of ?s queuedJob 9, THEN conjunct1, rule_format, OF d])
  have r3: "map_option e_startedAt
     (find (\<lambda>item. e_id item = ''j1'')
        (downloadEntries (static_upsertAll False (drop 1 queuedThenStarted) ?t))) = Some 1000"
    using upsertDownload_startedAt [of _ _ _ "''j1''" _ "drop 1 queuedThenStarted" ?t ?e False,
            THEN conjunct2, THEN conjunct2, THEN conjunct2]
          h f j c1 st
    by simp
  have q: "u_id queuedJob = ''j1''" and qs: "e_startedAt (mergeEntry ?e queuedJob 9) = 5"
    by code_simp+
  have pre5: "distinct (map e_id (downloads ?s)) \<and> lookupDownload ''j1'' ?s = Some ?e \<and> ''j1'' \<noteq> []
          \<and> u_id queuedJob = ''j1''"
    using d e q by simp
  have r5: "lookupDownload ''j1'' (snd (upsertDownload queuedJob 9 ?s)) = None
        \<or> map_option e_startedAt (lookupDownload ''j1'' (snd (upsertDownload queuedJob 9 ?s)))
            = Some 5"
    using upsertDownload_startedAt [of ?s queuedJob 9 "''j1''" ?e, THEN conjunct2, THEN conjunct1,
            THEN mp, OF pre5, THEN conjunct1] qs
    by auto
  from h1 r1 r2 r4 r5 r3 show ?thesis by (intro conjI)
qed

text \<open>
  C1 as stated fails in part_003. The first call inserts job \<^verbatim>\<open>j1\<close> from a queued
  snapshot that has a creation date only, so the record starts at 1000; the second call
  merges the snapshot of the started job, which carries \<^verbatim>\<open>started_at\<close> 2000, and the
  stored \<^verbatim>\<open>startedAt\<close> becomes 2000.
\<close>

theorem upsertDownload_startedAt_counterexample:
  "map_option e_startedAt (lookupDownload ''j1'' (upsertAll (take 1 queuedThenStarted) initial_state))
     = Some 1000
   \<and> map_option e_startedAt (lookupDownload ''j1'' (upsertAll queuedThenStarted initial_state))
     = Some 2000"
  by code_simp

lemma buildItems_defined:
  "pendingCancellations s = Some pc \<Longrightarrow> fst (buildItems es s acc) = Done"
  by (induction es arbitrary: acc) (simp_all add: buildDownloadItem_def pcHas_def)

lemma renderDownloads_defined:
  assumes "pendingCancellations s = Some pc"
  shows "fst (renderDownloads s) = Done"
  using assms
  by (simp add: renderDownloads_def Let_def case_prod_beta buildItems_defined
           split: option.splits)

lemma stopJobPolling_keeps_stopped:
  "pollers s i = None \<Longrightarrow> pollers (stopJobPolling j s) i = None"
  by (simp add: stopJobPolling_def split: option.splits)

lemma evictAll_keeps_stopped:
  "pollers s i = None \<Longrightarrow> pollers (snd (evictAll es s)) i = None"
proof (induction es arbitrary: s)
  case Nil
  then show ?case by simp
next
  case (Cons e es)
  have 1: "pollers (stopJobPolling (e_id e) s) i = None"
    by (rule stopJobPolling_keeps_stopped [OF Cons.prems])
  then have 2: "pollers (snd (pcDelete (e_id e) (stopJobPolling (e_id e) s))) i = None" by simp
  show ?case
  proof (cases "e_id e = []")
    case True
    then show ?thesis using Cons.IH [OF 1] by (simp add: Let_def)
  next
    case False
    show ?thesis
    proof (cases "pcDelete (e_id e) (stopJobPolling (e_id e) s)")
      case (Pair out s2)
      then have "pollers s2 i = None" using 2 by simp
      then show ?thesis using Pair False Cons.IH by (cases out) (simp_all add: Let_def)
    qed
  qed
qed

lemma evictAll_defined:
  assumes "pendingCancellations s = Some pc"
  shows "fst (evictAll es s) = Done \<and> pendingCancellations (snd (evictAll es s)) \<noteq> None
       \<and> (\<forall>e\<in>set es. e_id e \<noteq> [] \<longrightarrow> pollers (snd (evictAll es s)) (e_id e) = None)"
  using assms
proof (induction es arbitrary: s pc)
  case Nil
  then show ?case by simp
next
  case (Cons e es)
  let ?s1 = "stopJobPolling (e_id e) s"
  have p1: "pendingCancellations ?s1 = Some pc" using Cons.prems by simp
  show ?case
  proof (cases "e_id e = []")
    case True
    then show ?thesis using Cons.IH [OF p1] by (simp add: Let_def)
  next
    case False
    let ?s2 = "?s1\<lparr>pendingCancellations := Some (pc - {e_id e})\<rparr>"
    have p2: "pendingCancellations ?s2 = Some (pc - {e_id e})" by simp
    have stopped: "pollers ?s2 (e_id e) = None" using False by simp
    have step: "evictAll (e # es) s = evictAll es ?s2"
      using False p1 by (simp add: Let_def)
    show ?thesis
      unfolding step
      using Cons.IH [OF p2] evictAll_keeps_stopped [OF stopped, of es]
      by auto
  qed
qed

lemma upsertDownload_defined:
  assumes pc: "pendingCancellations s = Some pc" and u: "u_id upd \<noteq> []"
  shows "fst (upsertDownload upd now s) = Done"
    and "pendingCancellations (snd (upsertDownload upd now s)) \<noteq> None"
    and "downloads (snd (upsertDownload upd now s))
           = take MAX_DOWNLOAD_ENTRIES
               (sort_key (\<lambda>item. - e_startedAt item) (downloads (snd (upsertStore upd now s))))"
    and "\<forall>e\<in>set (drop MAX_DOWNLOAD_ENTRIES
               (sort_key (\<lambda>item. - e_startedAt item) (downloads (snd (upsertStore upd now s))))).
           e_id e \<noteq> [] \<longrightarrow> pollers (snd (upsertDownload upd now s)) (e_id e) = None"
proof -
  obtain e s1 where us: "upsertStore upd now s = (e, s1)" by (cases "upsertStore upd now s")
  have p1: "pendingCancellations s1 = Some pc"
    using upsertStore_pending [of upd now s] us pc by simp
  define s2 where "s2 = snd (clearSettled e s1)"
  have c: "clearSettled e s1 = (Done, s2)"
    using p1 by (simp add: s2_def clearSettled_def)
  have p2: "pendingCancellations s2 \<noteq> None"
    using p1 by (simp add: s2_def clearSettled_def)
  have d2: "downloads s2 = downloads s1"
    using p1 by (simp add: s2_def clearSettled_def)
  obtain pc2 where p2': "pendingCancellations s2 = Some pc2" using p2 by auto
  let ?sorted = "sort_key (\<lambda>item. - e_startedAt item) (downloads s1)"
  let ?s3 = "snd (evictOverflow (sortDownloads s2))"
  have ev: "fst (evictOverflow (sortDownloads s2)) = Done \<and> pendingCancellations ?s3 \<noteq> None
          \<and> (\<forall>e\<in>set (drop MAX_DOWNLOAD_ENTRIES ?sorted). e_id e \<noteq> [] \<longrightarrow> pollers ?s3 (e_id e) = None)"
  proof (cases "length (downloads s2) > MAX_DOWNLOAD_ENTRIES")
    case True
    let ?s = "(sortDownloads s2)\<lparr>downloads := take MAX_DOWNLOAD_ENTRIES (downloads (sortDownloads s2))\<rparr>"
    have "pendingCancellations ?s = Some pc2" using p2' by (simp add: sortDownloads_def)
    from evictAll_defined [OF this, of "drop MAX_DOWNLOAD_ENTRIES ?sorted"]
    show ?thesis using True d2 by (simp add: evictOverflow_def sortDownloads_def)
  next
    case False
    then show ?thesis using p2' d2 by (simp add: evictOverflow_def sortDownloads_def)
  qed
  have d3: "downloads ?s3 = take MAX_DOWNLOAD_ENTRIES ?sorted"
    using d2 by (simp add: evictOverflow_def sortDownloads_def)
  obtain pc3 where p3: "pendingCancellations ?s3 = Some pc3" using ev by auto
  have run: "upsertDownload upd now s = renderDownloads ?s3"
    using u us c ev by (cases "evictOverflow (sortDownloads s2)") (simp add: upsertDownload_def andThen_def)
  show "fst (upsertDownload upd now s) = Done"
    using run renderDownloads_defined [OF p3] by simp
  show "pendingCancellations (snd (upsertDownload upd now s)) \<noteq> None"
    using run p3 by simp
  show "downloads (snd (upsertDownload upd now s))
           = take MAX_DOWNLOAD_ENTRIES
               (sort_key (\<lambda>item. - e_startedAt item) (downloads (snd (upsertStore upd now s))))"
    using run d3 us by simp
  show "\<forall>e\<in>set (drop MAX_DOWNLOAD_ENTRIES
               (sort_key (\<lambda>item. - e_startedAt item) (downloads (snd (upsertStore upd now s))))).
           e_id e \<noteq> [] \<longrightarrow> pollers (snd (upsertDownload upd now s)) (e_id e) = None"
    using run ev us by simp
qed

lemma newest_first_split:
  fixes ds :: "entry list"
  defines "sorted_ds \<equiv> sort_key (\<lambda>item. - e_startedAt item) ds"
  shows "sorted (map (\<lambda>item. - e_startedAt item) (take n sorted_ds))"
    and "\<forall>old\<in>set (drop n sorted_ds). \<forall>kept\<in>set (take n sorted_ds).
           e_startedAt old \<le> e_startedAt kept"
proof -
  let ?k = "\<lambda>item. - e_startedAt item"
  have s: "sorted (map ?k sorted_ds)" by (simp add: sorted_ds_def)
  then have "sorted (map ?k (take n sorted_ds @ drop n sorted_ds))" by simp
  then have both: "sorted (map ?k (take n sorted_ds)) \<and>
     (\<forall>x\<in>set (map ?k (take n sorted_ds)). \<forall>y\<in>set (map ?k (drop n sorted_ds)). x \<le> y)"
    unfolding map_append sorted_append by blast
  show "sorted (map ?k (take n sorted_ds))" using both by blast
  show "\<forall>old\<in>set (drop n sorted_ds). \<forall>kept\<in>set (take n sorted_ds).
           e_startedAt old \<le> e_startedAt kept"
    using both by fastforce
qed

lemma capacity_when_defined:
  assumes "pendingCancellations s = Some pc" "u_id upd \<noteq> []"
  shows "fst (upsertDownload upd now s) = Done
       \<and> length (downloads (snd (upsertDownload upd now s))) \<le> MAX_DOWNLOAD_ENTRIES
       \<and> sorted (map (\<lambda>item. - e_startedAt item) (downloads (snd (upsertDownload upd now s))))
       \<and> downloads (snd (upsertDownload upd now s))
           = take MAX_DOWNLOAD_ENTRIES
               (sort_key (\<lambda>item. - e_startedAt item) (downloads (snd (upsertStore upd now s))))
       \<and> (\<forall>old\<in>set (drop MAX_DOWNLOAD_ENTRIES
               (sort_key (\<lambda>item. - e_startedAt item) (downloads (snd (upsertStore upd now s))))).
            (\<forall>kept\<in>set (downloads (snd (upsertDownload upd now s))).
                e_startedAt old \<le> e_startedAt kept)
            \<and> (e_id old \<noteq> [] \<longrightarrow> pollers (snd (upsertDownload upd now s)) (e_id old) = None))"
  using upsertDownload_defined [OF assms, of now]
        newest_first_split [of MAX_DOWNLOAD_ENTRIES "downloads (snd (upsertStore upd now s))"]
  by simp

lemma upsertAll_capacity_defined:
  assumes "pendingCancellations s \<noteq> None" "length (downloads s) \<le> MAX_DOWNLOAD_ENTRIES"
      and "sorted (map (\<lambda>item. - e_startedAt item) (downloads s))"
  shows "pendingCancellations (upsertAll calls s) \<noteq> None
       \<and> length (downloads (upsertAll calls s)) \<le> MAX_DOWNLOAD_ENTRIES
       \<and> sorted (map (\<lambda>item. - e_startedAt item) (downloads (upsertAll calls s)))"
  using assms
proof (induction calls arbitrary: s)
  case Nil
  then show ?case by (simp add: upsertAll_def)
next
  case (Cons call calls)
  obtain upd now where call: "call = (upd, now)" by (cases call)
  let ?s1 = "snd (upsertDownload upd now s)"
  obtain pc where pc: "pendingCancellations s = Some pc" using Cons.prems(1) by auto
  have step: "pendingCancellations ?s1 \<noteq> None
       \<and> length (downloads ?s1) \<le> MAX_DOWNLOAD_ENTRIES
       \<and> sorted (map (\<lambda>item. - e_startedAt item) (downloads ?s1))"
  proof (cases "u_id upd = []")
    case True
    then show ?thesis using Cons.prems by (simp add: upsertDownload_def)
  next
    case False
    from capacity_when_defined [OF pc False, of now] upsertDownload_defined(2) [OF pc False, of now]
    show ?thesis by blast
  qed
  have "upsertAll (call # calls) s = upsertAll calls ?s1"
    by (simp add: upsertAll_def call)
  then show ?case using Cons.IH [of ?s1] step by simp
qed

text \<open>
  C2 fails on part_003. Nine finished jobs are upserted into the empty store, one call
  after the other. Each record is pushed, and then \<^verbatim>\<open>state.pendingCancellations.delete\<close>
  throws, because the state object has no such property: the call ends before the list is
  sorted or cut. The store then holds nine records, oldest first. (With the set defined
  the claim holds: \<open>capacity_when_defined\<close> for one call, \<open>upsertAll_capacity_defined\<close>
  for a sequence.)
\<close>

theorem upsertDownload_over_capacity:
  "length (downloads (upsertAll nineFinished initial_state)) = 9
   \<and> map e_startedAt (downloads (upsertAll nineFinished initial_state))
       = [1, 2, 3, 4, 5, 6, 7, 8, 9]
   \<and> fst (upsertDownload (fst (hd nineFinished)) 1 initial_state) = Threw undefinedRead"
  by code_simp

section \<open>The set of pending cancellations\<close>

lemma cancelJob_response_pending_undefined:
  assumes "pendingCancellations s = None"
  shows "pendingCancellations (snd (cancelJob_response j resp now s)) = None"
proof -
  have h: "pendingCancellations (snd (andThen (pcDelete j) renderDownloads
                                       (appendConsoleLine line ty s0))) = None"
    if "pendingCancellations s0 = None" for s0 line ty
    using that by (simp add: andThen_def)
  have tr: "pendingCancellations (snd (cancelJob_try j resp now s)) = None"
  proof (cases resp)
    case (Rejected msg)
    then show ?thesis using assms by (simp add: cancelJob_try_def)
  next
    case (Response ok status body)
    show ?thesis
    proof (cases "ok")
      case False
      then show ?thesis using Response h [OF assms] by (simp add: cancelJob_try_def Let_def)
    next
      case True
      let ?data = "case body of Json d \<Rightarrow> Some d | NotJson _ \<Rightarrow> None"
      let ?s1 = "case ?data of
                   Some d \<Rightarrow> if d_message d \<noteq> [] then appendConsoleLine (d_message d) None s else s
                 | None \<Rightarrow> s"
      have s1: "pendingCancellations ?s1 = None" using assms by (simp split: option.splits)
      have "pendingCancellations
              (snd (andThen f (\<lambda>s3. (Done, startJobPolling j noOptions s3)) ?s1)) = None"
        if "\<And>s. pendingCancellations s = None \<Longrightarrow> pendingCancellations (snd (f s)) = None" for f
        using that s1
        by (intro andThen_keeps [where P = "\<lambda>s. pendingCancellations s = None"]) simp_all
      moreover have "pendingCancellations (snd (case snapshot of
                              Some upd \<Rightarrow> upsertDownload upd now s2
                            | None \<Rightarrow> renderDownloads s2)) = None"
        if "pendingCancellations s2 = None" for s2 snapshot
        using that by (simp add: upsertDownload_pending_undefined split: option.splits)
      ultimately show ?thesis
        using Response True by (simp add: cancelJob_try_def Let_def)
    qed
  qed
  obtain out s1 where t: "cancelJob_try j resp now s = (out, s1)"
    by (cases "cancelJob_try j resp now s")
  then have "pendingCancellations s1 = None" using tr by simp
  then show ?thesis
    using t h [of s1] by (cases out) (simp_all add: cancelJob_response_def)
qed

lemma pending_stays_undefined:
  assumes "pendingCancellations s = None"
  shows "pendingCancellations (snd (upsertDownload upd now s)) = None"
    and "pendingCancellations (snd (pollJob_response j opts resp now s)) = None"
    and "pendingCancellations (snd (cancelJob_request j s)) = None"
    and "pendingCancellations (snd (cancelJob_response j resp now s)) = None"
    and "pendingCancellations (startJobPolling j opts s) = None"
    and "pendingCancellations (stopJobPolling j s) = None"
    and "pendingCancellations (renderLogLines ls s) = None"
    and "pendingCancellations (setDebugMode v s) = None"
    and "pendingCancellations (tick timer s) = None"
proof -
  show "pendingCancellations (snd (upsertDownload upd now s)) = None"
    by (rule upsertDownload_pending_undefined [OF assms])
  show "pendingCancellations (snd (pollJob_response j opts resp now s)) = None"
    by (rule pollJob_response_pending_undefined [OF assms])
  show "pendingCancellations (snd (cancelJob_request j s)) = None"
    using assms by (cases "j = []") (simp_all add: cancelJob_request_def pcHas_def)
  show "pendingCancellations (snd (cancelJob_response j resp now s)) = None"
    by (rule cancelJob_response_pending_undefined [OF assms])
  show "pendingCancellations (startJobPolling j opts s) = None" using assms by simp
  show "pendingCancellations (stopJobPolling j s) = None" using assms by simp
  show "pendingCancellations (renderLogLines ls s) = None" using assms by simp
  show "pendingCancellations (setDebugMode v s) = None" using assms by simp
  show "pendingCancellations (tick timer s) = None"
    using assms by (simp add: tick_def pollJob_request_def split: option.splits prod.splits)
qed

text \<open>
  C5 fails on part_003: the state object has no \<^verbatim>\<open>pendingCancellations\<close> property, and
  every function that touches it throws a \<^verbatim>\<open>TypeError\<close>. Building the card of a queued
  job throws, and so does the upsert that renders it; \<^verbatim>\<open>cancelJob\<close> throws at its first
  test; the not-found branch, the branch of a final status and the \<^verbatim>\<open>catch\<close> block of
  \<^verbatim>\<open>pollJob\<close> throw; the eviction of a store over capacity throws. No function of the
  model defines the property (\<open>pending_stays_undefined\<close>), so this is so in every state
  the page can reach.
\<close>

theorem pendingCancellations_undefined:
  "pendingCancellations initial_state = None
   \<and> buildDownloadItem (newEntry queuedJob 5) False initial_state = Inl undefinedRead
   \<and> fst (upsertDownload queuedJob 5 initial_state) = Threw undefinedRead
   \<and> fst (cancelJob_request ''j1'' withQueuedJob) = Threw undefinedRead
   \<and> fst (pollJob_response ''j1'' noOptions
             (Response True ''200''
                (Json \<lparr>d_debug_mode = None, d_job = None, d_message = [], d_error = []\<rparr>))
             9 pollingQueuedJob) = Threw undefinedRead
   \<and> fst (pollJob_response ''j1'' noOptions
             (jobResponse (jobSnapshot ''j1'' ''complete'' Missing Missing))
             9 pollingQueuedJob) = Threw undefinedRead
   \<and> fst (pollJob_response ''j1'' noOptions (Rejected ''Failed to fetch'') 9 pollingQueuedJob)
       = Threw undefinedRead
   \<and> length (downloads (upsertAll nineFinished initial_state)) > MAX_DOWNLOAD_ENTRIES
   \<and> fst (evictOverflow (sortDownloads (upsertAll nineFinished initial_state)))
       = Threw undefinedRead"
  by code_simp

text \<open>
  With the set of pending cancellations defined, \<^verbatim>\<open>cancelJob\<close> does what it is
  written to do: the lemmas below follow it through a first call, a repeated call, a
  failed request and a successful one.
\<close>

lemma buildItems_acc:
  "set acc \<subseteq> set (snd (buildItems es s acc))"
proof (induction es arbitrary: acc)
  case Nil
  then show ?case by simp
next
  case (Cons e es)
  show ?case
  proof (cases "buildDownloadItem e (selectedJobId s = Some (e_id e)) s")
    case (Inl err)
    then show ?thesis by simp
  next
    case (Inr c)
    then show ?thesis using Cons.IH [of "acc @ [c]"] by auto
  qed
qed

lemma buildDownloadItem_defined:
  "pendingCancellations s = Some pc \<Longrightarrow>
   buildDownloadItem e sel s
     = Inr \<lparr>c_jobId = e_id e, c_status = e_status e, c_selected = sel,
            c_cancelButton =
              (if e_id e \<noteq> [] \<and> cancellable (e_status e)
               then Some \<lparr>b_text = (if e_id e \<in> pc then ''Cancelling'' @ ellipsis else ''Cancel''),
                          b_disabled = (e_id e \<in> pc)\<rparr>
               else None)\<rparr>"
  by (simp add: buildDownloadItem_def pcHas_def)

lemma buildItems_cancel_button:
  assumes "pendingCancellations s = Some pc" "e \<in> set es" "e_id e \<noteq> []" "cancellable (e_status e)"
  shows "\<exists>c\<in>set (snd (buildItems es s acc)).
           c_jobId c = e_id e
           \<and> c_cancelButton c
               = Some \<lparr>b_text = (if e_id e \<in> pc then ''Cancelling'' @ ellipsis else ''Cancel''),
                       b_disabled = (e_id e \<in> pc)\<rparr>"
  using assms(2)
proof (induction es arbitrary: acc)
  case Nil
  then show ?case by simp
next
  case (Cons x es)
  obtain c where c: "buildDownloadItem x (selectedJobId s = Some (e_id x)) s = Inr c"
    using buildDownloadItem_defined [OF assms(1)] by blast
  show ?case
  proof (cases "x = e")
    case True
    have "c_jobId c = e_id e \<and> c_cancelButton c
               = Some \<lparr>b_text = (if e_id e \<in> pc then ''Cancelling'' @ ellipsis else ''Cancel''),
                       b_disabled = (e_id e \<in> pc)\<rparr>"
      using c True assms buildDownloadItem_defined [OF assms(1), of e "selectedJobId s = Some (e_id e)"]
      by auto
    moreover have "c \<in> set (snd (buildItems es s (acc @ [c])))"
      using buildItems_acc [of "acc @ [c]" es s] by auto
    ultimately show ?thesis using c by auto
  next
    case False
    then have "e \<in> set es" using Cons.prems by simp
    from Cons.IH [OF this, of "acc @ [c]"] show ?thesis using c by simp
  qed
qed

lemma renderDownloads_cards:
  assumes "pendingCancellations s = Some pc" "downloadsList s \<noteq> None" "downloads s \<noteq> []"
  shows "\<exists>s2. pendingCancellations s2 = Some pc
            \<and> downloadsList (snd (renderDownloads s)) = Some (snd (buildItems (downloads s) s2 []))"
proof (cases "truthyId (selectedJobId s)
                \<and> \<not> list_ex (\<lambda>item. Some (e_id item) = selectedJobId s) (downloads s)")
  case True
  let ?s2 = "s\<lparr>downloadsList := Some [],
               activeConsoleJobId := (if activeConsoleJobId s = selectedJobId s then None
                                      else activeConsoleJobId s),
               selectedJobId := None\<rparr>"
  have "downloadsList (snd (renderDownloads s)) = Some (snd (buildItems (downloads s) ?s2 []))"
    using assms True
    by (auto simp: renderDownloads_def Let_def case_prod_beta split: option.splits)
  moreover have "pendingCancellations ?s2 = Some pc" using assms(1) by simp
  ultimately show ?thesis by blast
next
  case False
  let ?s2 = "s\<lparr>downloadsList := Some []\<rparr>"
  have "downloadsList (snd (renderDownloads s)) = Some (snd (buildItems (downloads s) ?s2 []))"
    using assms False
    by (auto simp: renderDownloads_def Let_def case_prod_beta split: option.splits)
  moreover have "pendingCancellations ?s2 = Some pc" using assms(1) by simp
  ultimately show ?thesis by blast
qed

lemma renderDownloads_cancel_button:
  assumes "pendingCancellations s = Some pc" "downloadsList s \<noteq> None"
      and "e \<in> set (downloads s)" "e_id e \<noteq> []" "cancellable (e_status e)"
  shows "\<exists>cards. downloadsList (snd (renderDownloads s)) = Some cards
           \<and> (\<exists>c\<in>set cards. c_jobId c = e_id e
                 \<and> c_cancelButton c
                     = Some \<lparr>b_text = (if e_id e \<in> pc then ''Cancelling'' @ ellipsis else ''Cancel''),
                             b_disabled = (e_id e \<in> pc)\<rparr>)"
proof -
  have ne: "downloads s \<noteq> []" using assms(3) by auto
  from renderDownloads_cards [OF assms(1) assms(2) ne] obtain s2 where
    p2: "pendingCancellations s2 = Some pc"
    and r: "downloadsList (snd (renderDownloads s)) = Some (snd (buildItems (downloads s) s2 []))"
    by blast
  from buildItems_cancel_button [OF p2 assms(3) assms(4) assms(5), of "[]"] r
  show ?thesis by simp
qed

lemma cancelJob_request_defined:
  assumes pc: "pendingCancellations s = Some pc" and j: "j \<noteq> []" and new: "j \<notin> pc"
  shows "fst (cancelJob_request j s) = Done"
    and "pendingCancellations (snd (cancelJob_request j s)) = Some (insert j pc)"
    and "requests (snd (cancelJob_request j s)) = PostCancel j # requests s"
    and "cancelJob_request j (snd (cancelJob_request j s)) = (Done, snd (cancelJob_request j s))"
    and "downloadsList s \<noteq> None \<Longrightarrow> e \<in> set (downloads s) \<Longrightarrow> e_id e = j \<Longrightarrow>
         cancellable (e_status e) \<Longrightarrow>
         \<exists>cards. downloadsList (snd (cancelJob_request j s)) = Some cards
           \<and> (\<exists>c\<in>set cards. c_jobId c = j
                 \<and> c_cancelButton c
                     = Some \<lparr>b_text = ''Cancelling'' @ ellipsis, b_disabled = True\<rparr>)"
proof -
  let ?s1 = "s\<lparr>pendingCancellations := Some (insert j pc)\<rparr>"
  have p1: "pendingCancellations ?s1 = Some (insert j pc)" by simp
  obtain s2 where r: "renderDownloads ?s1 = (Done, s2)"
    using renderDownloads_defined [OF p1] by (cases "renderDownloads ?s1") simp
  have s2: "s2 = snd (renderDownloads ?s1)" using r by simp
  have run: "cancelJob_request j s = (Done, s2\<lparr>requests := PostCancel j # requests s2\<rparr>)"
    using pc j new r by (simp add: cancelJob_request_def pcHas_def pcAdd_def andThen_def)
  have p2: "pendingCancellations s2 = Some (insert j pc)" using s2 by simp
  have q2: "requests s2 = requests s" using s2 by simp
  show "fst (cancelJob_request j s) = Done" using run by simp
  show "pendingCancellations (snd (cancelJob_request j s)) = Some (insert j pc)"
    using run p2 by simp
  show "requests (snd (cancelJob_request j s)) = PostCancel j # requests s"
    using run q2 by simp
  show "cancelJob_request j (snd (cancelJob_request j s)) = (Done, snd (cancelJob_request j s))"
    using run p2 j by (simp add: cancelJob_request_def pcHas_def)
  show "\<exists>cards. downloadsList (snd (cancelJob_request j s)) = Some cards
           \<and> (\<exists>c\<in>set cards. c_jobId c = j
                 \<and> c_cancelButton c
                     = Some \<lparr>b_text = ''Cancelling'' @ ellipsis, b_disabled = True\<rparr>)"
    if "downloadsList s \<noteq> None" "e \<in> set (downloads s)" "e_id e = j" "cancellable (e_status e)"
  proof -
    have "downloadsList ?s1 \<noteq> None" "e \<in> set (downloads ?s1)" "e_id e \<noteq> []"
      using that j by simp_all
    from renderDownloads_cancel_button [OF p1 this(1) this(2) this(3) that(4)]
    show ?thesis using run s2 that(3) by simp
  qed
qed

lemma start_polls: "j \<noteq> [] \<Longrightarrow> pollers (startJobPolling j opts s) j \<noteq> None"
  by (simp add: startJobPolling_def pollJob_request_def Let_def)

lemma cancelJob_failure_handler_defined:
  assumes "pendingCancellations s = Some pc"
  shows "fst (andThen (pcDelete j) renderDownloads (appendConsoleLine txt ty s)) = Done"
    and "pendingCancellations (snd (andThen (pcDelete j) renderDownloads (appendConsoleLine txt ty s)))
           = Some (pc - {j})"
    and "downloads (snd (andThen (pcDelete j) renderDownloads (appendConsoleLine txt ty s)))
           = downloads s"
    and "downloadsList s \<noteq> None \<Longrightarrow> e \<in> set (downloads s) \<Longrightarrow> e_id e = j \<Longrightarrow> j \<noteq> [] \<Longrightarrow>
         cancellable (e_status e) \<Longrightarrow>
         \<exists>cards. downloadsList (snd (andThen (pcDelete j) renderDownloads
                                        (appendConsoleLine txt ty s))) = Some cards
           \<and> (\<exists>c\<in>set cards. c_jobId c = j
                 \<and> c_cancelButton c = Some \<lparr>b_text = ''Cancel'', b_disabled = False\<rparr>)"
proof -
  let ?s0 = "appendConsoleLine txt ty s"
  let ?s1 = "?s0\<lparr>pendingCancellations := Some (pc - {j})\<rparr>"
  have p0: "pendingCancellations ?s0 = Some pc" using assms by simp
  have p1: "pendingCancellations ?s1 = Some (pc - {j})" by simp
  have run: "andThen (pcDelete j) renderDownloads ?s0 = renderDownloads ?s1"
    using p0 by (simp add: andThen_def)
  show "fst (andThen (pcDelete j) renderDownloads ?s0) = Done"
    using run renderDownloads_defined [OF p1] by simp
  show "pendingCancellations (snd (andThen (pcDelete j) renderDownloads ?s0)) = Some (pc - {j})"
    using run by simp
  show "downloads (snd (andThen (pcDelete j) renderDownloads ?s0)) = downloads s"
    using run by simp
  show "\<exists>cards. downloadsList (snd (andThen (pcDelete j) renderDownloads ?s0)) = Some cards
           \<and> (\<exists>c\<in>set cards. c_jobId c = j
                 \<and> c_cancelButton c = Some \<lparr>b_text = ''Cancel'', b_disabled = False\<rparr>)"
    if "downloadsList s \<noteq> None" "e \<in> set (downloads s)" "e_id e = j" "j \<noteq> []"
       "cancellable (e_status e)"
  proof -
    have "downloadsList ?s1 \<noteq> None" "e \<in> set (downloads ?s1)" "e_id e \<noteq> []"
      using that by simp_all
    from renderDownloads_cancel_button [OF p1 this(1) this(2) this(3) that(5)]
    show ?thesis using run that(3) by simp
  qed
qed

lemma cancelJob_response_failed_defined:
  assumes pc: "pendingCancellations s = Some pc"
      and bad: "resp = Rejected msg \<or> resp = Response False status body"
  shows "fst (cancelJob_response j resp now s) = Done"
    and "pendingCancellations (snd (cancelJob_response j resp now s)) = Some (pc - {j})"
    and "downloads (snd (cancelJob_response j resp now s)) = downloads s"
    and "downloadsList s \<noteq> None \<Longrightarrow> e \<in> set (downloads s) \<Longrightarrow> e_id e = j \<Longrightarrow> j \<noteq> [] \<Longrightarrow>
         cancellable (e_status e) \<Longrightarrow>
         \<exists>cards. downloadsList (snd (cancelJob_response j resp now s)) = Some cards
           \<and> (\<exists>c\<in>set cards. c_jobId c = j
                 \<and> c_cancelButton c = Some \<lparr>b_text = ''Cancel'', b_disabled = False\<rparr>)"
proof -
  obtain line where run: "cancelJob_response j resp now s
      = andThen (pcDelete j) renderDownloads (appendConsoleLine line (Some ''error'') s)"
  proof (cases "resp = Rejected msg")
    case True
    then show ?thesis using that by (simp add: cancelJob_response_def cancelJob_try_def)
  next
    case False
    then have r: "resp = Response False status body" using bad by simp
    let ?h = "andThen (pcDelete j) renderDownloads
                (appendConsoleLine
                   (''ERROR: Failed to cancel job '' @ j @ '': '' @
                      (case (case body of Json d \<Rightarrow> Some d | NotJson _ \<Rightarrow> None) of
                         Some d \<Rightarrow> if d_message d \<noteq> [] then d_message d
                                   else if d_error d \<noteq> [] then d_error d
                                   else ''HTTP '' @ status
                       | None \<Rightarrow> ''HTTP '' @ status))
                   (Some ''error'') s)"
    have t: "cancelJob_try j resp now s = ?h"
      using r by (simp add: cancelJob_try_def Let_def)
    have "fst ?h = Done" by (rule cancelJob_failure_handler_defined(1) [OF pc])
    then have "cancelJob_response j resp now s = ?h"
      using t by (cases ?h) (simp add: cancelJob_response_def)
    then show ?thesis using that by blast
  qed
  show "fst (cancelJob_response j resp now s) = Done"
    unfolding run by (rule cancelJob_failure_handler_defined(1) [OF pc])
  show "pendingCancellations (snd (cancelJob_response j resp now s)) = Some (pc - {j})"
    unfolding run by (rule cancelJob_failure_handler_defined(2) [OF pc])
  show "downloads (snd (cancelJob_response j resp now s)) = downloads s"
    unfolding run by (rule cancelJob_failure_handler_defined(3) [OF pc])
  show "\<exists>cards. downloadsList (snd (cancelJob_response j resp now s)) = Some cards
           \<and> (\<exists>c\<in>set cards. c_jobId c = j
                 \<and> c_cancelButton c = Some \<lparr>b_text = ''Cancel'', b_disabled = False\<rparr>)"
    if "downloadsList s \<noteq> None" "e \<in> set (downloads s)" "e_id e = j" "j \<noteq> []"
       "cancellable (e_status e)"
    unfolding run using cancelJob_failure_handler_defined(4) [OF pc that] .
qed

lemma cancelJob_response_ok_defined:
  assumes pc: "pendingCancellations s = Some pc" and j: "j \<noteq> []"
  shows "fst (cancelJob_response j (Response True status body) now s) = Done"
    and "pollers (snd (cancelJob_response j (Response True status body) now s)) j \<noteq> None"
    and "body = Json d \<Longrightarrow> d_job d = Some job \<Longrightarrow> normaliseJob job now = Some upd \<Longrightarrow>
         snd (cancelJob_response j (Response True status body) now s)
           = startJobPolling j noOptions
               (snd (upsertDownload upd now
                       (if d_message d \<noteq> [] then appendConsoleLine (d_message d) None s else s)))"
proof -
  let ?data = "case body of Json d \<Rightarrow> Some d | NotJson _ \<Rightarrow> None"
  let ?s1 = "case ?data of
               Some d \<Rightarrow> if d_message d \<noteq> [] then appendConsoleLine (d_message d) None s else s
             | None \<Rightarrow> s"
  let ?snapshot = "case ?data of
                     Some d \<Rightarrow> (case d_job d of Some j \<Rightarrow> normaliseJob j now | None \<Rightarrow> None)
                   | None \<Rightarrow> None"
  let ?f = "\<lambda>s2. case ?snapshot of Some upd \<Rightarrow> upsertDownload upd now s2
                                  | None \<Rightarrow> renderDownloads s2"
  have p1: "pendingCancellations ?s1 = Some pc" using pc by (simp split: option.splits)
  have u: "u_id upd \<noteq> []" if "normaliseJob job now = Some upd" for job upd
    using that by (auto simp: normaliseJob_def Let_def split: if_splits)
  have fd: "fst (?f ?s1) = Done"
  proof (cases ?snapshot)
    case None
    then show ?thesis using renderDownloads_defined [OF p1] by simp
  next
    case (Some upd)
    then obtain job where "normaliseJob job now = Some upd"
      by (auto split: option.splits)
    from upsertDownload_defined(1) [OF p1 u [OF this]] show ?thesis using Some by simp
  qed
  have t: "cancelJob_try j (Response True status body) now s
             = (Done, startJobPolling j noOptions (snd (?f ?s1)))"
    using fd by (cases "?f ?s1") (simp add: cancelJob_try_def Let_def andThen_def)
  then have run: "cancelJob_response j (Response True status body) now s
             = (Done, startJobPolling j noOptions (snd (?f ?s1)))"
    by (simp add: cancelJob_response_def)
  show "fst (cancelJob_response j (Response True status body) now s) = Done"
    using run by simp
  show "pollers (snd (cancelJob_response j (Response True status body) now s)) j \<noteq> None"
    using run start_polls [OF j] by simp
  show "snd (cancelJob_response j (Response True status body) now s)
           = startJobPolling j noOptions
               (snd (upsertDownload upd now
                       (if d_message d \<noteq> [] then appendConsoleLine (d_message d) None s else s)))"
    if "body = Json d" "d_job d = Some job" "normaliseJob job now = Some upd"
    using run that by simp
qed

text \<open>
  C4 fails on part_003. Job \<^verbatim>\<open>j1\<close> is queued and in the store; \<^verbatim>\<open>cancelJob('j1')\<close>
  throws at \<^verbatim>\<open>state.pendingCancellations.has(jobId)\<close> and leaves the state as it was:
  nothing is marked as pending and no cancel request is sent. (With the set defined the
  claim holds: \<open>cancelJob_request_defined\<close>, \<open>cancelJob_response_failed_defined\<close> and
  \<open>cancelJob_response_ok_defined\<close>.)
\<close>

theorem cancelJob_never_starts:
  "cancelJob_request ''j1'' withQueuedJob = (Threw undefinedRead, withQueuedJob)
   \<and> PostCancel ''j1'' \<notin> set (requests withQueuedJob)
   \<and> map e_id (downloads withQueuedJob) = [''j1'']
   \<and> map e_status (downloads withQueuedJob) = [Some ''queued'']"
proof -
  have u: "pendingCancellations withQueuedJob = None"
    by code_simp
  have r: "PostCancel ''j1'' \<notin> set (requests withQueuedJob)
     \<and> map e_id (downloads withQueuedJob) = [''j1'']
     \<and> map e_status (downloads withQueuedJob) = [Some ''queued'']"
    by code_simp
  show ?thesis using cancelJob_request_undefined [OF u, of "''j1''"] r by simp
qed

section \<open>Properties of the pollers\<close>

lemma pollers_ok_start:
  assumes "pollers_ok s"
  shows "pollers_ok (startJobPolling j opts s)"
proof (cases "j = [] \<or> pollers s j \<noteq> None")
  case True
  then show ?thesis using assms by (auto simp: startJobPolling_def)
next
  case False
  have fresh: "nextTimer s \<notin> fst ` set (intervals s)"
    using assms by (auto simp: pollers_ok_def)
  have other: "\<forall>iv\<in>set (intervals s). fst (snd iv) \<noteq> j"
    using assms False by (auto simp: pollers_ok_def)
  show ?thesis
    using False assms fresh other
    by (auto simp: startJobPolling_def pollJob_request_def pollers_ok_def Let_def less_Suc_eq)
qed

lemma pollers_ok_stop:
  assumes "pollers_ok s"
  shows "pollers_ok (stopJobPolling j s)"
proof (cases "j = []")
  case True
  then show ?thesis using assms by (simp add: stopJobPolling_def)
next
  case False
  show ?thesis
  proof (cases "pollers s j")
    case None
    then show ?thesis using assms by (simp add: stopJobPolling_def)
  next
    case (Some t)
    have "\<forall>iv\<in>set (intervals s). fst iv \<noteq> t \<longrightarrow> fst (snd iv) \<noteq> j"
      using assms Some by (auto simp: pollers_ok_def)
    then show ?thesis
      using assms Some False
      by (auto simp: stopJobPolling_def pollers_ok_def distinct_map_filter)
  qed
qed

lemma one_timer:
  assumes "pollers_ok s"
  shows "length (timersOf j s) \<le> 1"
proof -
  have d: "distinct (timersOf j s)"
    using assms by (simp add: timersOf_def pollers_ok_def distinct_map_filter)
  have sub: "\<forall>t\<in>set (timersOf j s). pollers s j = Some t"
    using assms by (auto simp: timersOf_def pollers_ok_def)
  have "card (set (timersOf j s)) \<le> 1"
  proof (cases "pollers s j")
    case None
    then have "set (timersOf j s) = {}" using sub by auto
    then show ?thesis by simp
  next
    case (Some t)
    then have "set (timersOf j s) \<subseteq> {t}" using sub by auto
    then have "card (set (timersOf j s)) \<le> card {t}" by (intro card_mono) simp_all
    then show ?thesis by simp
  qed
  then show ?thesis using d by (simp add: distinct_card)
qed

lemma start_again:
  "pollers s j \<noteq> None \<Longrightarrow> startJobPolling j opts s = s"
  by (simp add: startJobPolling_def)

lemma stop_clears:
  assumes "pollers_ok s"
  shows "timersOf j (stopJobPolling j s) = []" and "pollers (stopJobPolling j s) j = None"
proof -
  show "pollers (stopJobPolling j s) j = None"
    using assms by (auto simp: stopJobPolling_def pollers_ok_def split: option.splits)
  show "timersOf j (stopJobPolling j s) = []"
    using assms
    by (auto simp: timersOf_def stopJobPolling_def pollers_ok_def filter_empty_conv
             split: option.splits)
qed

lemma tick_frame [simp]:
  "intervals (tick t s) = intervals s" "pollers (tick t s) = pollers s"
  by (auto simp: tick_def pollJob_request_def split: option.splits)

lemma tick_other_job:
  assumes "timersOf j s = []"
  shows "fetchesFor j (tick t s) = fetchesFor j s"
proof (cases "map_of (intervals s) t")
  case None
  then show ?thesis by (simp add: tick_def)
next
  case (Some iv)
  obtain j' opts where iv: "iv = (j', opts)" by (cases iv)
  have "(t, j', opts) \<in> set (intervals s)" using Some iv by (auto dest: map_of_SomeD)
  then have "j' \<noteq> j" using assms by (auto simp: timersOf_def filter_empty_conv)
  then show ?thesis using Some iv by (simp add: tick_def pollJob_request_def fetchesFor_def)
qed

lemma ticks_other_job:
  "timersOf j s = [] \<Longrightarrow> fetchesFor j (fold tick ts s) = fetchesFor j s"
proof (induction ts arbitrary: s)
  case Nil
  then show ?case by simp
next
  case (Cons t ts)
  have "timersOf j (tick t s) = []" using Cons.prems by (simp add: timersOf_def)
  then show ?case using Cons.IH [of "tick t s"] tick_other_job [OF Cons.prems] by simp
qed

lemma beginJobPolling_again:
  assumes "j \<noteq> []" "jobPollers t j = Some info"
  shows "beginJobPolling j sc t
           = t\<lparr>jobPollers := (jobPollers t)(j \<mapsto> info\<lparr>p_showConsole := p_showConsole info \<or> sc\<rparr>)\<rparr>"
proof (cases sc)
  case True
  then show ?thesis using assms by (simp add: beginJobPolling_def)
next
  case False
  have "(jobPollers t)(j \<mapsto> info) = jobPollers t" using assms(2) by (simp add: map_upd_triv)
  then show ?thesis using assms False by (simp add: beginJobPolling_def)
qed

lemma pollers_ok_same:
  "pollers s' = pollers s \<Longrightarrow> intervals s' = intervals s \<Longrightarrow> nextTimer s' = nextTimer s \<Longrightarrow>
   pollers_ok s' = pollers_ok s"
  by (simp add: pollers_ok_def)

lemma pollers_ok_pcDelete: "pollers_ok (snd (pcDelete j s)) = pollers_ok s"
  by (rule pollers_ok_same) simp_all

lemma pollers_ok_renderDownloads: "pollers_ok (snd (renderDownloads s)) = pollers_ok s"
  by (rule pollers_ok_same) simp_all

lemma pollers_ok_renderLogLines: "pollers_ok (renderLogLines ls s) = pollers_ok s"
  by (rule pollers_ok_same) simp_all

lemma pollers_ok_appendConsoleLine: "pollers_ok (appendConsoleLine line ty s) = pollers_ok s"
  by (rule pollers_ok_same) simp_all

lemma pollers_ok_setDebugMode: "pollers_ok (setDebugMode v s) = pollers_ok s"
  by (rule pollers_ok_same) simp_all

lemma pollers_ok_tick: "pollers_ok (tick t s) = pollers_ok s"
  by (rule pollers_ok_same) (auto simp: tick_def pollJob_request_def split: option.splits)

lemma pollers_ok_evictAll: "pollers_ok s \<Longrightarrow> pollers_ok (snd (evictAll es s))"
proof (induction es arbitrary: s)
  case Nil
  then show ?case by simp
next
  case (Cons e es)
  let ?s1 = "stopJobPolling (e_id e) s"
  have 1: "pollers_ok ?s1" by (rule pollers_ok_stop [OF Cons.prems])
  show ?case
  proof (cases "e_id e = []")
    case True
    then show ?thesis using Cons.IH [OF 1] by (simp add: Let_def)
  next
    case False
    show ?thesis
    proof (cases "pcDelete (e_id e) ?s1")
      case (Pair out s2)
      have "pollers_ok s2" using pollers_ok_pcDelete [of "e_id e" ?s1] 1 Pair by simp
      then show ?thesis using Pair False Cons.IH by (cases out) (simp_all add: Let_def)
    qed
  qed
qed

lemma pollers_ok_upsertDownload:
  assumes "pollers_ok s"
  shows "pollers_ok (snd (upsertDownload upd now s))"
proof (cases "u_id upd = []")
  case True
  then show ?thesis using assms by (simp add: upsertDownload_def)
next
  case False
  obtain e s1 where us: "upsertStore upd now s = (e, s1)" by (cases "upsertStore upd now s")
  have "pollers s1 = pollers s \<and> intervals s1 = intervals s \<and> nextTimer s1 = nextTimer s"
    using us by (auto simp: upsertStore_def Let_def split: option.splits)
  then have s1: "pollers_ok s1" using assms pollers_ok_same by blast
  have "pollers_ok
          (snd (andThen (clearSettled e)
                  (andThen (\<lambda>s2. evictOverflow (sortDownloads s2)) renderDownloads) s1))"
  proof (rule andThen_keeps [where P = pollers_ok])
    show "pollers_ok (snd (clearSettled e s))" if "pollers_ok s" for s
      using that by (simp add: clearSettled_def pollers_ok_pcDelete)
    show "pollers_ok (snd (andThen (\<lambda>s2. evictOverflow (sortDownloads s2)) renderDownloads s))"
      if "pollers_ok s" for s
    proof (rule andThen_keeps [where P = pollers_ok])
      show "pollers_ok (snd (evictOverflow (sortDownloads s)))" if "pollers_ok s" for s
      proof -
        have a: "pollers_ok (sortDownloads s)"
          using that by (simp add: pollers_ok_def sortDownloads_def)
        then have b: "pollers_ok ((sortDownloads s)\<lparr>downloads := ds\<rparr>)" for ds
          by (simp add: pollers_ok_def)
        show ?thesis using a pollers_ok_evictAll [OF b] by (simp add: evictOverflow_def)
      qed
      show "pollers_ok (snd (renderDownloads s))" if "pollers_ok s" for s
        using that by (simp add: pollers_ok_renderDownloads)
      show "pollers_ok s" by (rule that)
    qed
    show "pollers_ok s1" by (rule s1)
  qed
  then show ?thesis using False us by (simp add: upsertDownload_def)
qed

lemma pollers_ok_pollJob_response:
  assumes "pollers_ok s"
  shows "pollers_ok (snd (pollJob_response jobId options resp now s))"
proof -
  have tr: "pollers_ok (snd (pollJob_try jobId options resp now s))"
  proof (cases resp)
    case (Rejected msg)
    then show ?thesis using assms by (simp add: pollJob_try_def)
  next
    case (Response ok status body)
    show ?thesis
    proof (cases "ok")
      case False
      then show ?thesis using assms Response by (simp add: pollJob_try_def)
    next
      case True
      show ?thesis
      proof (cases body)
        case (NotJson msg)
        then show ?thesis using assms Response True by (simp add: pollJob_try_def)
      next
        case (Json data)
        let ?s1 = "case d_debug_mode data of Some v \<Rightarrow> setDebugMode v s | None \<Rightarrow> s"
        have s1: "pollers_ok ?s1"
          using assms by (simp add: pollers_ok_setDebugMode split: option.splits)
        show ?thesis
        proof (cases "d_job data")
          case None
          have k: "pollers_ok (snd (andThen f (\<lambda>s5. pcDelete jobId (stopJobPolling jobId s5)) s0))"
            if "pollers_ok s0" "\<And>s. pollers_ok s \<Longrightarrow> pollers_ok (snd (f s))" for f s0
            using that
            by (intro andThen_keeps [where P = pollers_ok])
               (simp_all add: pollers_ok_pcDelete pollers_ok_stop)
          have pre: "pollers_ok
              (if activeConsoleJobId s2 = Some jobId then s2\<lparr>activeConsoleJobId := None\<rparr> else s2)"
            if "pollers_ok s2" for s2
            using that by (simp add: pollers_ok_def)
          have sel: "pollers_ok (snd (if selectedJobId s4 = Some jobId
                                      then renderDownloads (s4\<lparr>selectedJobId := None\<rparr>)
                                      else (Done, s4)))"
            if "pollers_ok s4" for s4
          proof -
            have "pollers_ok (s4\<lparr>selectedJobId := None\<rparr>)" using that by (simp add: pollers_ok_def)
            then show ?thesis using that by (simp add: pollers_ok_renderDownloads)
          qed
          show ?thesis
            using Response True Json None s1
            by (simp add: pollJob_try_def Let_def k pre sel pollers_ok_renderLogLines)
        next
          case (Some job)
          have "pollers_ok (snd (andThen
              (\<lambda>s2. case normaliseJob job now of
                       Some entry \<Rightarrow> upsertDownload entry now s2
                     | None \<Rightarrow> (Done, s2))
              (\<lambda>s3. let show = (showConsole options \<or> activeConsoleJobId s3 = Some jobId);
                         s4 = (case j_logs job of
                                 Some logs \<Rightarrow> if show then renderLogLines logs s3 else s3
                               | None \<Rightarrow> s3)
                     in if isFinalStatus (j_status job)
                        then andThen (pcDelete jobId) (\<lambda>s5. (Done, stopJobPolling jobId s5)) s4
                        else (Done, s4)) ?s1))"
          proof (rule andThen_keeps [where P = pollers_ok])
            show "pollers_ok s \<Longrightarrow>
                  pollers_ok (snd (case normaliseJob job now of
                       Some entry \<Rightarrow> upsertDownload entry now s
                     | None \<Rightarrow> (Done, s)))" for s
              by (simp add: pollers_ok_upsertDownload split: option.splits)
            show "pollers_ok s \<Longrightarrow>
                  pollers_ok (snd (let show = (showConsole options \<or> activeConsoleJobId s = Some jobId);
                         s4 = (case j_logs job of
                                 Some logs \<Rightarrow> if show then renderLogLines logs s else s
                               | None \<Rightarrow> s)
                     in if isFinalStatus (j_status job)
                        then andThen (pcDelete jobId) (\<lambda>s5. (Done, stopJobPolling jobId s5)) s4
                        else (Done, s4)))" for s
            proof -
              assume ok: "pollers_ok s"
              have fin: "pollers_ok (snd (andThen (pcDelete jobId)
                                           (\<lambda>s5. (Done, stopJobPolling jobId s5)) s4))"
                if "pollers_ok s4" for s4
                using that
                by (intro andThen_keeps [where P = pollers_ok])
                   (simp_all add: pollers_ok_pcDelete pollers_ok_stop)
              show ?thesis
                using ok fin by (simp add: Let_def pollers_ok_renderLogLines split: option.splits)
            qed
            show "pollers_ok ?s1" by (rule s1)
          qed
          then show ?thesis using Response True Json Some by (simp add: pollJob_try_def)
        qed
      qed
    qed
  qed
  obtain out s1 where t: "pollJob_try jobId options resp now s = (out, s1)"
    by (cases "pollJob_try jobId options resp now s")
  then have "pollers_ok s1" using tr by simp
  then show ?thesis
    using t assms
    by (cases out)
       (simp_all add: pollJob_response_def pollers_ok_pcDelete pollers_ok_stop
          pollers_ok_appendConsoleLine)
qed

lemma pollers_ok_cancelJob_request:
  assumes "pollers_ok s"
  shows "pollers_ok (snd (cancelJob_request j s))"
proof (cases "j = []")
  case True
  then show ?thesis using assms by (simp add: cancelJob_request_def)
next
  case False
  show ?thesis
  proof (cases "pcHas j s")
    case (Inl err)
    then show ?thesis using assms False by (simp add: cancelJob_request_def)
  next
    case (Inr marked)
    have "pollers_ok (snd (andThen (pcAdd j)
            (andThen renderDownloads
               (\<lambda>s1. (Done, s1\<lparr>requests := PostCancel j # requests s1\<rparr>))) s))"
    proof (rule andThen_keeps [where P = pollers_ok])
      show "pollers_ok (snd (pcAdd j s))" if "pollers_ok s" for s
        using that by (simp add: pcAdd_def pollers_ok_def split: option.splits)
      show "pollers_ok (snd (andThen renderDownloads
               (\<lambda>s1. (Done, s1\<lparr>requests := PostCancel j # requests s1\<rparr>)) s))"
        if "pollers_ok s" for s
        using that
        by (intro andThen_keeps [where P = pollers_ok])
           (simp_all add: pollers_ok_renderDownloads, simp add: pollers_ok_def)
      show "pollers_ok s" by (rule assms)
    qed
    then show ?thesis using assms False Inr by (cases marked) (simp_all add: cancelJob_request_def)
  qed
qed

lemma pollers_ok_cancel_handler:
  "pollers_ok s \<Longrightarrow>
   pollers_ok (snd (andThen (pcDelete j) renderDownloads (appendConsoleLine line ty s)))"
  by (intro andThen_keeps [where P = pollers_ok])
     (simp_all add: pollers_ok_pcDelete pollers_ok_renderDownloads pollers_ok_appendConsoleLine)

lemma pollers_ok_cancelJob_response:
  assumes "pollers_ok s"
  shows "pollers_ok (snd (cancelJob_response j resp now s))"
proof -
  have tr: "pollers_ok (snd (cancelJob_try j resp now s))"
  proof (cases resp)
    case (Rejected msg)
    then show ?thesis using assms by (simp add: cancelJob_try_def)
  next
    case (Response ok status body)
    show ?thesis
    proof (cases "ok")
      case False
      then show ?thesis
        using Response pollers_ok_cancel_handler [OF assms]
        by (simp add: cancelJob_try_def Let_def)
    next
      case True
      let ?data = "case body of Json d \<Rightarrow> Some d | NotJson _ \<Rightarrow> None"
      let ?s1 = "case ?data of
                   Some d \<Rightarrow> if d_message d \<noteq> [] then appendConsoleLine (d_message d) None s else s
                 | None \<Rightarrow> s"
      have s1: "pollers_ok ?s1"
        using assms by (simp add: pollers_ok_appendConsoleLine split: option.splits)
      have "pollers_ok (snd (andThen f (\<lambda>s3. (Done, startJobPolling j noOptions s3)) ?s1))"
        if "\<And>s. pollers_ok s \<Longrightarrow> pollers_ok (snd (f s))" for f
        using that s1
        by (intro andThen_keeps [where P = pollers_ok]) (simp_all add: pollers_ok_start)
      moreover have "pollers_ok (snd (case snapshot of
                              Some upd \<Rightarrow> upsertDownload upd now s2
                            | None \<Rightarrow> renderDownloads s2))"
        if "pollers_ok s2" for s2 snapshot
        using that
        by (simp add: pollers_ok_upsertDownload pollers_ok_renderDownloads split: option.splits)
      ultimately show ?thesis
        using Response True by (simp add: cancelJob_try_def Let_def)
    qed
  qed
  obtain out s1 where t: "cancelJob_try j resp now s = (out, s1)"
    by (cases "cancelJob_try j resp now s")
  then have "pollers_ok s1" using tr by simp
  then show ?thesis
    using t pollers_ok_cancel_handler [of s1]
    by (cases out) (simp_all add: cancelJob_response_def)
qed

text \<open>
  The pollers of static/script.js: \<^verbatim>\<open>jobPollers\<close> and the timers stay in agreement,
  no job has more than one timer, and a stopped job is polled no more.
\<close>

lemma static_pollers_ok_begin:
  assumes "static_pollers_ok s"
  shows "static_pollers_ok (beginJobPolling j sc s)"
proof (cases "j = []")
  case True
  then show ?thesis using assms by (simp add: beginJobPolling_def)
next
  case False
  show ?thesis
  proof (cases "jobPollers s j")
    case (Some info)
    then show ?thesis
      using assms False by (auto simp: beginJobPolling_def static_pollers_ok_def)
  next
    case None
    have fresh: "staticNextTimer s \<notin> fst ` set (staticIntervals s)"
      using assms by (auto simp: static_pollers_ok_def)
    have other: "\<forall>iv\<in>set (staticIntervals s). snd iv \<noteq> j"
      using assms None by (auto simp: static_pollers_ok_def)
    show ?thesis
      using None False assms fresh other
      by (auto simp: beginJobPolling_def static_pollJob_request_def static_pollers_ok_def
                     Let_def less_Suc_eq)
  qed
qed

lemma static_pollers_ok_stop:
  assumes "static_pollers_ok s"
  shows "static_pollers_ok (static_stopJobPolling j s)"
proof (cases "jobPollers s j")
  case None
  have "(jobPollers s)(j := None) = jobPollers s" using None by (simp add: fun_upd_idem)
  then show ?thesis using assms None by (simp add: static_stopJobPolling_def)
next
  case (Some info)
  have "\<forall>iv\<in>set (staticIntervals s). fst iv \<noteq> p_timer info \<longrightarrow> snd iv \<noteq> j"
    using assms Some by (auto simp: static_pollers_ok_def)
  then show ?thesis
    using assms Some
    by (auto simp: static_stopJobPolling_def static_pollers_ok_def distinct_map_filter)
qed

lemma static_tick_frame [simp]:
  "staticIntervals (static_tick timer s) = staticIntervals s"
  "jobPollers (static_tick timer s) = jobPollers s"
  "staticNextTimer (static_tick timer s) = staticNextTimer s"
  by (auto simp: static_tick_def static_pollJob_request_def split: option.splits)

lemma static_upsertDownload_frame [simp]:
  "staticIntervals (static_upsertDownload upd atEnd now s) = staticIntervals s"
  "jobPollers (static_upsertDownload upd atEnd now s) = jobPollers s"
  "staticNextTimer (static_upsertDownload upd atEnd now s) = staticNextTimer s"
  "staticRequests (static_upsertDownload upd atEnd now s) = staticRequests s"
  by (auto simp: static_upsertDownload_def Let_def split: option.splits)

lemma static_pollers_ok_tick: "static_pollers_ok (static_tick timer s) = static_pollers_ok s"
  by (simp add: static_pollers_ok_def)

lemma static_pollers_ok_upsert:
  "static_pollers_ok (static_upsertDownload upd atEnd now s) = static_pollers_ok s"
  by (simp add: static_pollers_ok_def)

lemma static_pollers_ok_pollJob_response:
  assumes "static_pollers_ok s"
  shows "static_pollers_ok (static_pollJob_response j resp now s)"
proof -
  have up: "static_pollers_ok (static_upsertDownload entry False now s)" for entry
    using assms by (simp add: static_pollers_ok_upsert)
  show ?thesis
    using assms up static_pollers_ok_stop
    by (auto simp: static_pollJob_response_def Let_def
             split: fetched.splits body.splits option.splits)
qed

lemma static_one_timer:
  assumes "static_pollers_ok s"
  shows "length (static_timersOf j s) \<le> 1"
proof -
  have d: "distinct (static_timersOf j s)"
    using assms by (simp add: static_timersOf_def static_pollers_ok_def distinct_map_filter)
  have sub: "\<forall>t\<in>set (static_timersOf j s). map_option p_timer (jobPollers s j) = Some t"
    using assms by (auto simp: static_timersOf_def static_pollers_ok_def)
  have "card (set (static_timersOf j s)) \<le> 1"
  proof (cases "jobPollers s j")
    case None
    then have "set (static_timersOf j s) = {}" using sub by auto
    then show ?thesis by simp
  next
    case (Some info)
    then have "set (static_timersOf j s) \<subseteq> {p_timer info}" using sub by auto
    then have "card (set (static_timersOf j s)) \<le> card {p_timer info}"
      by (intro card_mono) simp_all
    then show ?thesis by simp
  qed
  then show ?thesis using d by (simp add: distinct_card)
qed

lemma static_stop_clears:
  assumes "static_pollers_ok s"
  shows "static_timersOf j (static_stopJobPolling j s) = []"
    and "jobPollers (static_stopJobPolling j s) j = None"
proof -
  show "jobPollers (static_stopJobPolling j s) j = None"
    by (simp add: static_stopJobPolling_def split: option.splits)
  show "static_timersOf j (static_stopJobPolling j s) = []"
    using assms
    by (auto simp: static_timersOf_def static_stopJobPolling_def static_pollers_ok_def
                   filter_empty_conv split: option.splits)
qed

lemma static_tick_other_job:
  assumes "static_timersOf j s = []"
  shows "static_fetchesFor j (static_tick t s) = static_fetchesFor j s"
proof (cases "map_of (staticIntervals s) t")
  case None
  then show ?thesis by (simp add: static_tick_def)
next
  case (Some j')
  have "(t, j') \<in> set (staticIntervals s)" using Some by (auto dest: map_of_SomeD)
  then have "j' \<noteq> j" using assms by (auto simp: static_timersOf_def filter_empty_conv)
  then show ?thesis
    using Some by (simp add: static_tick_def static_pollJob_request_def static_fetchesFor_def)
qed

lemma static_ticks_other_job:
  "static_timersOf j s = [] \<Longrightarrow>
   static_fetchesFor j (fold static_tick ts s) = static_fetchesFor j s"
proof (induction ts arbitrary: s)
  case Nil
  then show ?case by simp
next
  case (Cons t ts)
  have "static_timersOf j (static_tick t s) = []"
    using Cons.prems by (simp add: static_timersOf_def)
  then show ?case
    using Cons.IH [of "static_tick t s"] static_tick_other_job [OF Cons.prems] by simp
qed

lemma static_stop_requests [simp]:
  "staticRequests (static_stopJobPolling j s) = staticRequests s"
  by (simp add: static_stopJobPolling_def split: option.splits)

lemma static_stop_halts:
  assumes "static_pollers_ok s"
  shows "static_fetchesFor j (fold static_tick ts (static_stopJobPolling j s))
           = static_fetchesFor j s"
proof -
  have "static_fetchesFor j (fold static_tick ts (static_stopJobPolling j s))
          = static_fetchesFor j (static_stopJobPolling j s)"
    by (rule static_ticks_other_job [OF static_stop_clears(1) [OF assms]])
  then show ?thesis by (simp add: static_fetchesFor_def)
qed

lemma beginJobPolling_again_timers:
  assumes "j \<noteq> []" "jobPollers t j = Some info"
  shows "staticIntervals (beginJobPolling j sc t) = staticIntervals t"
    and "staticRequests (beginJobPolling j sc t) = staticRequests t"
  using assms by (simp_all add: beginJobPolling_def)

text \<open>
  C6, as the code has it. In every state of part_003 where the poller map and the timers
  agree: \<^verbatim>\<open>startJobPolling\<close> and \<^verbatim>\<open>stopJobPolling\<close> keep them in agreement, and so do
  a timer tick, an upsert, the handling of a poll response and both halves of
  \<^verbatim>\<open>cancelJob\<close>; no job has more than one active timer; a second
  \<^verbatim>\<open>startJobPolling\<close> for a job that is polling changes nothing at all (it creates no
  timer, and the poller keeps the options of the first call: part_003 has no flag to
  upgrade); after one \<^verbatim>\<open>stopJobPolling\<close> the job has no poller entry and no timer, and
  no tick of any timer sends a further poll for it. In every state of static/script.js
  where \<^verbatim>\<open>jobPollers\<close> and the timers agree: \<^verbatim>\<open>beginJobPolling\<close>,
  \<^verbatim>\<open>stopJobPolling\<close>, a timer tick, an upsert and the handling of a poll response keep
  them in agreement; no job has more than one active timer; a second
  \<^verbatim>\<open>beginJobPolling\<close> for a job that is polling changes the \<^verbatim>\<open>showConsole\<close> flag of
  its poller only, raising it when the call asks for the console (it creates no timer
  and sends no poll); after one \<^verbatim>\<open>stopJobPolling\<close> the job has no poller entry and no
  timer, and no tick of any timer sends a further poll for it.
\<close>

theorem startJobPolling_idempotent:
  assumes "pollers_ok s" and "static_pollers_ok t"
  shows "pollers_ok (startJobPolling j opts s) \<and> pollers_ok (stopJobPolling j s)
       \<and> pollers_ok (tick timer s)
       \<and> pollers_ok (snd (upsertDownload upd now s))
       \<and> pollers_ok (snd (pollJob_response j opts resp now s))
       \<and> pollers_ok (snd (cancelJob_request j s))
       \<and> pollers_ok (snd (cancelJob_response j resp now s))
       \<and> length (timersOf j s) \<le> 1
       \<and> (pollers s j \<noteq> None \<longrightarrow> startJobPolling j opts s = s)
       \<and> pollers (stopJobPolling j s) j = None
       \<and> timersOf j (stopJobPolling j s) = []
       \<and> fetchesFor j (fold tick ts (stopJobPolling j s)) = fetchesFor j s
       \<and> static_pollers_ok (beginJobPolling j sc t)
       \<and> static_pollers_ok (static_stopJobPolling j t)
       \<and> static_pollers_ok (static_tick timer t)
       \<and> static_pollers_ok (static_upsertDownload upd atEnd now t)
       \<and> static_pollers_ok (static_pollJob_response j resp now t)
       \<and> length (static_timersOf j t) \<le> 1
       \<and> (j \<noteq> [] \<and> jobPollers t j = Some info \<longrightarrow>
            beginJobPolling j sc t
              = t\<lparr>jobPollers :=
                    (jobPollers t)(j \<mapsto> info\<lparr>p_showConsole := p_showConsole info \<or> sc\<rparr>)\<rparr>)
       \<and> jobPollers (static_stopJobPolling j t) j = None
       \<and> static_timersOf j (static_stopJobPolling j t) = []
       \<and> static_fetchesFor j (fold static_tick ts (static_stopJobPolling j t))
           = static_fetchesFor j t"
proof -
  have "fetchesFor j (fold tick ts (stopJobPolling j s)) = fetchesFor j (stopJobPolling j s)"
    by (rule ticks_other_job [OF stop_clears(1) [OF assms(1)]])
  then have f: "fetchesFor j (fold tick ts (stopJobPolling j s)) = fetchesFor j s"
    by (simp add: fetchesFor_def)
  have k: "pollers_ok (tick timer s)" using assms(1) by (simp add: pollers_ok_tick)
  have sk: "static_pollers_ok (static_tick timer t)"
    using assms(2) by (simp add: static_pollers_ok_tick)
  have su: "static_pollers_ok (static_upsertDownload upd atEnd now t)"
    using assms(2) by (simp add: static_pollers_ok_upsert)
  show ?thesis
  proof (intro conjI impI)
    show "pollers_ok (startJobPolling j opts s)" by (rule pollers_ok_start [OF assms(1)])
    show "pollers_ok (stopJobPolling j s)" by (rule pollers_ok_stop [OF assms(1)])
    show "pollers_ok (tick timer s)" by (rule k)
    show "pollers_ok (snd (upsertDownload upd now s))"
      by (rule pollers_ok_upsertDownload [OF assms(1)])
    show "pollers_ok (snd (pollJob_response j opts resp now s))"
      by (rule pollers_ok_pollJob_response [OF assms(1)])
    show "pollers_ok (snd (cancelJob_request j s))"
      by (rule pollers_ok_cancelJob_request [OF assms(1)])
    show "pollers_ok (snd (cancelJob_response j resp now s))"
      by (rule pollers_ok_cancelJob_response [OF assms(1)])
    show "length (timersOf j s) \<le> 1" by (rule one_timer [OF assms(1)])
    show "startJobPolling j opts s = s" if "pollers s j \<noteq> None"
      using that by (rule start_again)
    show "pollers (stopJobPolling j s) j = None" by (rule stop_clears(2) [OF assms(1)])
    show "timersOf j (stopJobPolling j s) = []" by (rule stop_clears(1) [OF assms(1)])
    show "fetchesFor j (fold tick ts (stopJobPolling j s)) = fetchesFor j s" by (rule f)
    show "static_pollers_ok (beginJobPolling j sc t)"
      by (rule static_pollers_ok_begin [OF assms(2)])
    show "static_pollers_ok (static_stopJobPolling j t)"
      by (rule static_pollers_ok_stop [OF assms(2)])
    show "static_pollers_ok (static_tick timer t)" by (rule sk)
    show "static_pollers_ok (static_upsertDownload upd atEnd now t)" by (rule su)
    show "static_pollers_ok (static_pollJob_response j resp now t)"
      by (rule static_pollers_ok_pollJob_response [OF assms(2)])
    show "length (static_timersOf j t) \<le> 1" by (rule static_one_timer [OF assms(2)])
    show "beginJobPolling j sc t
            = t\<lparr>jobPollers :=
                  (jobPollers t)(j \<mapsto> info\<lparr>p_showConsole := p_showConsole info \<or> sc\<rparr>)\<rparr>"
      if "j \<noteq> [] \<and> jobPollers t j = Some info"
      using that beginJobPolling_again [of j t info sc] by blast
    show "jobPollers (static_stopJobPolling j t) j = None"
      by (rule static_stop_clears(2) [OF assms(2)])
    show "static_timersOf j (static_stopJobPolling j t) = []"
      by (rule static_stop_clears(1) [OF assms(2)])
    show "static_fetchesFor j (fold static_tick ts (static_stopJobPolling j t))
            = static_fetchesFor j t"
      by (rule static_stop_halts [OF assms(2)])
  qed
qed

theorem startJobPolling_idempotent_witness:
  "startJobPolling ''j1'' withConsole (startJobPolling ''j1'' noOptions initial_state)
     = startJobPolling ''j1'' noOptions initial_state
   \<and> timersOf ''j1'' (startJobPolling ''j1'' noOptions initial_state) = [1]
   \<and> timersOf ''j1'' (stopJobPolling ''j1'' (startJobPolling ''j1'' noOptions initial_state)) = []
   \<and> fetchesFor ''j1'' (fold tick [1, 1, 2]
        (stopJobPolling ''j1'' (startJobPolling ''j1'' noOptions initial_state))) = 1
   \<and> jobPollers (beginJobPolling ''j1'' True (beginJobPolling ''j1'' False initial_static)) ''j1''
       = Some \<lparr>p_showConsole = True, p_timer = 1\<rparr>
   \<and> staticIntervals (beginJobPolling ''j1'' True (beginJobPolling ''j1'' False initial_static))
       = [(1, ''j1'')]
   \<and> staticRequests (beginJobPolling ''j1'' True (beginJobPolling ''j1'' False initial_static))
       = [(''j1'', False)]
   \<and> static_timersOf ''j1''
        (static_stopJobPolling ''j1'' (beginJobPolling ''j1'' False initial_static)) = []
   \<and> static_fetchesFor ''j1'' (fold static_tick [1, 1, 2]
        (static_stopJobPolling ''j1'' (beginJobPolling ''j1'' False initial_static))) = 1"
proof -
  let ?s = "startJobPolling ''j1'' noOptions initial_state"
  let ?t = "beginJobPolling ''j1'' False initial_static"
  let ?info = "\<lparr>p_showConsole = False, p_timer = 1\<rparr>"
  have ok: "pollers_ok ?s"
    by (simp add: pollers_ok_def startJobPolling_def pollJob_request_def initial_state_def Let_def)
  have p: "pollers ?s ''j1'' \<noteq> None"
    by (simp add: startJobPolling_def pollJob_request_def initial_state_def Let_def)
  have t: "timersOf ''j1'' ?s = [1]"
    by (simp add: timersOf_def startJobPolling_def pollJob_request_def initial_state_def Let_def)
  have f: "fetchesFor ''j1'' ?s = 1"
    by (simp add: fetchesFor_def startJobPolling_def pollJob_request_def initial_state_def Let_def)
  have sok: "static_pollers_ok ?t"
    by (simp add: static_pollers_ok_def beginJobPolling_def static_pollJob_request_def
          initial_static_def Let_def)
  have sp: "''j1'' \<noteq> [] \<and> jobPollers ?t ''j1'' = Some ?info"
    by (simp add: beginJobPolling_def static_pollJob_request_def initial_static_def Let_def)
  have si: "staticIntervals ?t = [(1, ''j1'')]" "staticRequests ?t = [(''j1'', False)]"
    by (simp_all add: beginJobPolling_def static_pollJob_request_def initial_static_def Let_def)
  have sf: "static_fetchesFor ''j1'' ?t = 1"
    by (simp add: static_fetchesFor_def si)
  note main = startJobPolling_idempotent [OF ok sok, where j = "''j1''" and opts = withConsole
                and ts = "[1, 1, 2]" and sc = True and info = ?info]
  have b: "beginJobPolling ''j1'' True ?t
             = ?t\<lparr>jobPollers := (jobPollers ?t)(''j1'' \<mapsto> ?info\<lparr>p_showConsole := True\<rparr>)\<rparr>"
    using main sp by simp
  have r5: "jobPollers (beginJobPolling ''j1'' True ?t) ''j1''
              = Some \<lparr>p_showConsole = True, p_timer = 1\<rparr>"
    unfolding b by simp
  have r6: "staticIntervals (beginJobPolling ''j1'' True ?t) = [(1, ''j1'')]"
    unfolding b using si by simp
  have r7: "staticRequests (beginJobPolling ''j1'' True ?t) = [(''j1'', False)]"
    unfolding b using si by simp
  have r14: "startJobPolling ''j1'' withConsole ?s = ?s
      \<and> timersOf ''j1'' ?s = [1]
      \<and> timersOf ''j1'' (stopJobPolling ''j1'' ?s) = []
      \<and> fetchesFor ''j1'' (fold tick [1, 1, 2] (stopJobPolling ''j1'' ?s)) = 1"
    using main p t f by simp
  have r89: "static_timersOf ''j1'' (static_stopJobPolling ''j1'' ?t) = []
      \<and> static_fetchesFor ''j1'' (fold static_tick [1, 1, 2] (static_stopJobPolling ''j1'' ?t)) = 1"
    using main sf by simp
  from r14 r5 r6 r7 r89 show ?thesis by simp
qed

text \<open>
  C6 as stated fails in part_003: job \<^verbatim>\<open>j1\<close> is polling without console, a second
  \<^verbatim>\<open>startJobPolling\<close> asks for the console, and the callback of the job's timer still
  has \<^verbatim>\<open>showConsole\<close> false.
\<close>

theorem startJobPolling_flag_counterexample:
  "pollers (startJobPolling ''j1'' withConsole (startJobPolling ''j1'' noOptions initial_state))
     ''j1'' = Some 1
   \<and> map_of (intervals (startJobPolling ''j1'' withConsole
                          (startJobPolling ''j1'' noOptions initial_state))) 1
     = Some (''j1'', \<lparr>showConsole = False, notifyNotFound = False\<rparr>)"
  by (simp add: startJobPolling_def pollJob_request_def initial_state_def Let_def noOptions_def)

text \<open>
  A poll response with a terminal status on part_003 as it is. The snapshot normalises
  to an update with its id and with status complete, failed or cancelled; the merge
  half of \<^verbatim>\<open>upsertDownload\<close> stores it, line 1606 then throws the \<^verbatim>\<open>TypeError\<close> of
  the undefined set, and the \<^verbatim>\<open>catch\<close> block of \<^verbatim>\<open>pollJob\<close> writes an error line
  and stops the poller.
\<close>

lemma upsertStore_frame [simp]:
  "pollers (snd (upsertStore upd now s)) = pollers s"
  "intervals (snd (upsertStore upd now s)) = intervals s"
  "nextTimer (snd (upsertStore upd now s)) = nextTimer s"
  "requests (snd (upsertStore upd now s)) = requests s"
  by (simp_all add: upsertStore_def Let_def split: option.splits)

lemma find_snoc:
  "find P (xs @ [x]) = (case find P xs of Some y \<Rightarrow> Some y | None \<Rightarrow> if P x then Some x else None)"
  by (induction xs) auto

lemma upsertStore_entry:
  "e_id (fst (upsertStore upd now s)) = u_id upd"
  "u_status upd = Some st \<Longrightarrow> e_status (fst (upsertStore upd now s)) = Some st"
  "lookupDownload (u_id upd) (snd (upsertStore upd now s)) = Some (fst (upsertStore upd now s))"
proof -
  show "e_id (fst (upsertStore upd now s)) = u_id upd"
    by (simp add: upsertStore_def Let_def mergeEntry_def newEntry_def split: option.splits)
  show "u_status upd = Some st \<Longrightarrow> e_status (fst (upsertStore upd now s)) = Some st"
    by (simp add: upsertStore_def Let_def mergeEntry_def newEntry_def split: option.splits)
  show "lookupDownload (u_id upd) (snd (upsertStore upd now s)) = Some (fst (upsertStore upd now s))"
  proof (cases "findIndex (\<lambda>item. e_id item = u_id upd) (downloads s)")
    case None
    then have "find (\<lambda>item. e_id item = u_id upd) (downloads s) = None"
      by (simp add: findIndex_None)
    then show ?thesis
      using None by (simp add: upsertStore_def Let_def lookupDownload_def find_snoc newEntry_def)
  next
    case (Some i)
    have "e_id (mergeEntry (downloads s ! i) upd now) = u_id upd" by (simp add: mergeEntry_def)
    from find_update_first [OF Some, of "mergeEntry (downloads s ! i) upd now"] this
    show ?thesis using Some by (simp add: upsertStore_def Let_def lookupDownload_def)
  qed
qed

lemma upsertDownload_settled_undefined:
  assumes "pendingCancellations s = None" "u_id upd \<noteq> []" "u_status upd = Some st"
      and "st \<notin> set CANCELLABLE_STATUSES"
  shows "upsertDownload upd now s = (Threw undefinedRead, snd (upsertStore upd now s))"
proof -
  obtain e s1 where us: "upsertStore upd now s = (e, s1)" by (cases "upsertStore upd now s")
  have e: "e_id e = u_id upd" "e_status e = Some st"
    using upsertStore_entry(1) [of upd now s] upsertStore_entry(2) [OF assms(3), of now s] us
    by simp_all
  have p: "pendingCancellations s1 = None"
    using upsertStore_pending [of upd now s] us assms(1) by simp
  have "clearSettled e s1 = (Threw undefinedRead, s1)"
    using e assms(2,4) p by (simp add: clearSettled_def cancellable_def pcDelete_def)
  then show ?thesis using us assms(2) by (simp add: upsertDownload_def andThen_def)
qed

lemma normaliseJob_terminal:
  assumes "j_id job \<noteq> []"
      and "j_status job \<in> {''complete'', ''failed'', ''cancelled'', ''completed''}"
  shows "\<exists>upd. normaliseJob job now = Some upd \<and> u_id upd = j_id job
           \<and> u_status upd = Some (if j_status job = ''completed'' then ''complete''
                                   else j_status job)"
  using assms
  by (auto simp: normaliseJob_def Let_def orElse_def hasStatusLabel_def STATUS_LABELS_def)

lemma pollJob_terminal_run:
  assumes pc: "pendingCancellations s = None"
      and j: "jobId \<noteq> []" and job: "d_job data = Some job"
      and upd: "normaliseJob job now = Some upd" and id: "u_id upd \<noteq> []"
      and st: "u_status upd = Some st" "st \<notin> set CANCELLABLE_STATUSES"
  shows "pollJob_response jobId options (Response True status (Json data)) now s
           = (Threw undefinedRead,
              stopJobPolling jobId
                (appendConsoleLine
                   (''ERROR: Failed to poll job '' @ jobId @ '': '' @ errText undefinedRead)
                   (Some ''error'')
                   (snd (upsertStore upd now
                           (case d_debug_mode data of Some v \<Rightarrow> setDebugMode v s
                                                    | None \<Rightarrow> s)))))"
proof -
  let ?s1 = "case d_debug_mode data of Some v \<Rightarrow> setDebugMode v s | None \<Rightarrow> s"
  have p1: "pendingCancellations ?s1 = None" using pc by (simp split: option.splits)
  have u: "upsertDownload upd now ?s1 = (Threw undefinedRead, snd (upsertStore upd now ?s1))"
    by (rule upsertDownload_settled_undefined [OF p1 id st])
  have t: "pollJob_try jobId options (Response True status (Json data)) now s
             = (Threw undefinedRead, snd (upsertStore upd now ?s1))"
    using job upd u by (simp add: pollJob_try_def andThen_def Let_def)
  have p2: "pendingCancellations (snd (upsertStore upd now ?s1)) = None"
    using p1 by simp
  show ?thesis
    using t j p2 by (simp add: pollJob_response_def pcDelete_def)
qed





text \<open>
  The tick ends in the \<^verbatim>\<open>TypeError\<close>: the \<^verbatim>\<open>catch\<close> block stops the poller and then
  calls \<^verbatim>\<open>delete\<close> on the undefined set itself.
\<close>

lemma pollJob_terminal_outcome:
  assumes "pendingCancellations s = None" "jobId \<noteq> []" "j_id job \<noteq> []" "d_job data = Some job"
      and "j_status job \<in> {''complete'', ''failed'', ''cancelled'', ''completed''}"
  shows "fst (pollJob_response jobId options (Response True status (Json data)) now s)
           = Threw undefinedRead"
proof -
  let ?st = "if j_status job = ''completed'' then ''complete'' else j_status job"
  from normaliseJob_terminal [OF assms(3) assms(5), of now] obtain upd where
    upd: "normaliseJob job now = Some upd" and uid: "u_id upd = j_id job"
    and ust: "u_status upd = Some ?st"
    by blast
  have nc: "?st \<notin> set CANCELLABLE_STATUSES"
    using assms(5) by (auto simp: CANCELLABLE_STATUSES_def)
  have uid': "u_id upd \<noteq> []" using uid assms(3) by simp
  show ?thesis
    using pollJob_terminal_run [OF assms(1) assms(2) assms(4) upd uid' ust nc, of options status]
    by simp
qed

text \<open>
  The test of line 1508 reads the raw \<^verbatim>\<open>job.status\<close>, not the normalised status. A
  snapshot with status \<^verbatim>\<open>completed\<close> and no id, which \<^verbatim>\<open>normaliseJob\<close> does not
  merge, leaves the poller running; and so would a snapshot with the id, were the set of
  pending cancellations defined.
\<close>

lemma pollJob_snapshot_without_id:
  "pollers pollingQueuedJob ''j1'' = Some 1
   \<and> fst (pollJob_response ''j1'' noOptions
             (jobResponse (jobSnapshot [] ''completed'' Missing Missing)) 9 pollingQueuedJob) = Done
   \<and> pollers (snd (pollJob_response ''j1'' noOptions
                     (jobResponse (jobSnapshot [] ''completed'' Missing Missing)) 9
                     pollingQueuedJob)) ''j1'' = Some 1
   \<and> map e_status (downloads (snd (pollJob_response ''j1'' noOptions
                     (jobResponse (jobSnapshot [] ''completed'' Missing Missing)) 9
                     pollingQueuedJob))) = [Some ''queued'']
   \<and> requests (tick 1 (snd (pollJob_response ''j1'' noOptions
                     (jobResponse (jobSnapshot [] ''completed'' Missing Missing)) 9
                     pollingQueuedJob)))
       = [GetJob ''j1'', GetJob ''j1'']"
  by code_simp

lemma pollJob_completed_alias_defined:
  "fst (pollJob_response ''j1'' noOptions
          (jobResponse (jobSnapshot ''j1'' ''completed'' Missing Missing)) 9
          (pollingQueuedJob\<lparr>pendingCancellations := Some {}\<rparr>)) = Done
   \<and> map e_status (downloads (snd (pollJob_response ''j1'' noOptions
          (jobResponse (jobSnapshot ''j1'' ''completed'' Missing Missing)) 9
          (pollingQueuedJob\<lparr>pendingCancellations := Some {}\<rparr>))))
       = [Some ''complete'']
   \<and> pollers (snd (pollJob_response ''j1'' noOptions
          (jobResponse (jobSnapshot ''j1'' ''completed'' Missing Missing)) 9
          (pollingQueuedJob\<lparr>pendingCancellations := Some {}\<rparr>)))
        ''j1'' = Some 1"
  by code_simp

section \<open>Properties of the search coordinators\<close>

lemma performAddMovieSearch_response_stale:
  "token \<noteq> am_searchToken s \<Longrightarrow> performAddMovieSearch_response token resp s = s"
  by (simp add: performAddMovieSearch_response_def addMovieFinally_def Let_def
           split: fetched.splits)

lemma performYouTubeSearch_fetched_stale:
  "token \<noteq> yt_token s \<Longrightarrow> performYouTubeSearch_fetched token resp s = (False, s)"
  by (simp add: performYouTubeSearch_fetched_def youtubeCatch_def youtubeFinally_def
           split: headers.splits)

lemma performYouTubeSearch_parsed_failed_stale:
  "token \<noteq> yt_token s \<Longrightarrow> performYouTubeSearch_parsed token (BodyFailed err) s = s"
  by (simp add: performYouTubeSearch_parsed_def youtubeCatch_def youtubeFinally_def)

lemma youtube_token_request [simp]:
  "yt_token (performYouTubeSearch_request query token s) = yt_token s"
  by (simp add: performYouTubeSearch_request_def setYouTubeSearchFeedback_def
        clearYouTubeSearchResults_def renderYouTubeSearchResults_def
        setYouTubeSearchLoading_def abortYouTubeSearch_def Let_def split: option.splits)

lemma youtube_token_grows:
  "yt_token (scheduleYouTubeSearch True s) = yt_token s + 1"
  "yt_token (scheduleYouTubeSearch False s) = yt_token s"
  "yt_token s \<le> yt_token (youtubeTimeoutFires s)"
  "yt_token (snd (performYouTubeSearch_fetched token resp s)) = yt_token s"
  "yt_token (performYouTubeSearch_parsed token body s) = yt_token s"
      apply (simp add: scheduleYouTubeSearch_def Let_def)
     apply (simp add: scheduleYouTubeSearch_def Let_def)
    apply (simp add: youtubeTimeoutFires_def Let_def split: option.splits)
   apply (simp add: performYouTubeSearch_fetched_def youtubeCatch_def youtubeFinally_def
            setYouTubeSearchLoading_def setYouTubeSearchFeedback_def
            clearYouTubeSearchResults_def renderYouTubeSearchResults_def
            split: headers.splits failure.splits)
  apply (simp add: performYouTubeSearch_parsed_def youtubeCatch_def youtubeFinally_def
           setYouTubeSearchLoading_def setYouTubeSearchFeedback_def Let_def
           clearYouTubeSearchResults_def renderYouTubeSearchResults_def
           split: yt_body.splits failure.splits)
  done

text \<open>
  The YouTube token only grows, so once a newer search has been dispatched the
  continuation that follows the fetch of the earlier one is discarded, whatever the
  handlers that ran in between.
\<close>

lemma youtubeStep_token: "yt_token s \<le> yt_token (youtubeStep ev s)"
proof (cases ev)
  case (YtInput v immediate)
  then show ?thesis by (cases immediate) (simp_all add: youtube_token_grows)
next
  case YtTimeout
  then show ?thesis by (simp add: youtube_token_grows)
next
  case (YtFetched token resp)
  then show ?thesis by (simp add: youtube_token_grows)
next
  case (YtParsed token body)
  then show ?thesis by (simp add: youtube_token_grows)
qed

lemma youtube_events_token: "yt_token s \<le> yt_token (fold youtubeStep evs s)"
proof (induction evs arbitrary: s)
  case Nil
  show ?case by simp
next
  case (Cons ev evs)
  show ?case using youtubeStep_token [of s ev] Cons [of "youtubeStep ev s"] by simp
qed

lemma youtube_superseded:
  "performYouTubeSearch_fetched (yt_token (scheduleYouTubeSearch True s)) resp
     (fold youtubeStep evs (scheduleYouTubeSearch True (scheduleYouTubeSearch True s)))
   = (False, fold youtubeStep evs (scheduleYouTubeSearch True (scheduleYouTubeSearch True s)))"
proof (rule performYouTubeSearch_fetched_stale)
  have "yt_token (scheduleYouTubeSearch True s)
          < yt_token (scheduleYouTubeSearch True (scheduleYouTubeSearch True s))"
    by (simp add: youtube_token_grows)
  also have "\<dots> \<le> yt_token (fold youtubeStep evs
                             (scheduleYouTubeSearch True (scheduleYouTubeSearch True s)))"
    by (rule youtube_events_token)
  finally show "yt_token (scheduleYouTubeSearch True s)
      \<noteq> yt_token (fold youtubeStep evs
                    (scheduleYouTubeSearch True (scheduleYouTubeSearch True s)))"
    by simp
qed

text \<open>
  The same holds for the Radarr search as long as the modal is not opened again while
  the earlier request is in flight.
\<close>

lemma addMovie_token_simps [simp]:
  "am_searchToken (setAddMovieStatus m t s) = am_searchToken s"
  "am_searchToken (clearAddMoviePreview s) = am_searchToken s"
  "am_searchToken (renderAddMovieResults s) = am_searchToken s"
  "am_searchToken (resetAddMovieState s) = am_searchToken s"
  "am_searchToken (showEmptyAddMovieResults s) = am_searchToken s"
  "am_searchToken (performAddMovieSearch_request q s) = am_searchToken s + 1"
  by (simp_all add: setAddMovieStatus_def clearAddMoviePreview_def renderAddMovieResults_def
        resetAddMovieState_def showEmptyAddMovieResults_def performAddMovieSearch_request_def
        Let_def)

lemma addMovieStep_token:
  "\<not> reopens ev \<Longrightarrow> am_searchToken s \<le> am_searchToken (addMovieStep ev s)"
proof (cases ev)
  case (AmInput v immediate)
  then show ?thesis by (simp add: scheduleAddMovieSearch_def Let_def)
next
  case AmTimeout
  then show ?thesis by (simp add: addMovieTimeoutFires_def split: option.splits)
next
  case (AmResponse token resp)
  then show ?thesis
    by (simp add: performAddMovieSearch_response_def addMovieFinally_def Let_def
          split: fetched.splits)
next
  case AmClose
  then show ?thesis by (simp add: closeAddMovieModal_def)
next
  case (AmOpen q)
  assume "\<not> reopens ev"
  then show ?thesis using AmOpen by simp
qed

lemma addMovie_events_token:
  "\<forall>ev\<in>set evs. \<not> reopens ev \<Longrightarrow>
   am_searchToken s \<le> am_searchToken (fold addMovieStep evs s)"
proof (induction evs arbitrary: s)
  case Nil
  show ?case by simp
next
  case (Cons ev evs)
  have "am_searchToken s \<le> am_searchToken (addMovieStep ev s)"
    using Cons.prems by (simp add: addMovieStep_token)
  also have "\<dots> \<le> am_searchToken (fold addMovieStep evs (addMovieStep ev s))"
    using Cons.prems by (intro Cons.IH) simp
  finally show ?case by simp
qed

lemma addMovie_superseded:
  assumes "\<forall>ev\<in>set evs. \<not> reopens ev"
  shows "performAddMovieSearch_response (am_searchToken (performAddMovieSearch_request q1 s)) resp
           (fold addMovieStep evs
              (performAddMovieSearch_request q2 (performAddMovieSearch_request q1 s)))
         = fold addMovieStep evs
             (performAddMovieSearch_request q2 (performAddMovieSearch_request q1 s))"
proof (rule performAddMovieSearch_response_stale)
  have "am_searchToken (performAddMovieSearch_request q1 s)
          < am_searchToken (performAddMovieSearch_request q2 (performAddMovieSearch_request q1 s))"
    by simp
  also have "\<dots> \<le> am_searchToken (fold addMovieStep evs
                 (performAddMovieSearch_request q2 (performAddMovieSearch_request q1 s)))"
    by (rule addMovie_events_token [OF assms])
  finally show "am_searchToken (performAddMovieSearch_request q1 s)
      \<noteq> am_searchToken (fold addMovieStep evs
            (performAddMovieSearch_request q2 (performAddMovieSearch_request q1 s)))"
    by simp
qed

text \<open>
  C3 fails on part_003 for the Radarr search. \<^verbatim>\<open>openAddMovieModal\<close> sets
  \<^verbatim>\<open>searchToken\<close> back to 0, so the token of a request still in flight is issued a
  second time. The modal is opened with the query alien (request with token 1), closed,
  and opened again with the query aliens (the newer request increments the token from 0
  to 1). The response to the first request then passes the token test: it replaces the
  stored results, the rendered list and the status message while the second request is
  still in flight.
\<close>

theorem addMovieSearch_token_reused:
  "am_fetches (openAddMovieModal ''alien'' initial_add_movie) = [(''alien'', 1)]
   \<and> am_fetches reopened = [(''aliens'', 1), (''alien'', 1)]
   \<and> am_searchToken reopened = 1
   \<and> am_results reopened = [] \<and> am_rendered reopened = []
   \<and> f_text (am_status reopened) = ''Searching Radarr'' @ ellipsis
   \<and> am_results (performAddMovieSearch_response 1 alienResponse reopened)
       = [\<lparr>m_tmdbId = 348, m_title = ''Alien'', m_year = ''1979''\<rparr>]
   \<and> am_rendered (performAddMovieSearch_response 1 alienResponse reopened) = [''Alien (1979)'']
   \<and> f_text (am_status (performAddMovieSearch_response 1 alienResponse reopened))
       = ''Select a movie below to add it to Radarr.''"
  by code_simp

end
